theory Spec2Isabelle
  imports Main "HOL-Library.AList"
begin

section \<open>Data model\<close>

text \<open>
  A literal is a signed integer, a clause a list of literals, a formula a list of
  clauses. An assignment is a Python dictionary from variable ids to booleans; it is
  modelled as an association list read with \<^const>\<open>map_of\<close> and written with
  \<^const>\<open>AList.update\<close> (the value is replaced in place when the key exists and
  appended otherwise, which is the insertion order of a Python dictionary).
\<close>

type_synonym literal = int
type_synonym clause = "literal list"
type_synonym assignment = "(int \<times> bool) list"

section \<open>Clause satisfaction\<close>

text \<open>\<open>is_clause_satisfied\<close> of \<open>tests/sat_solver/utils.py\<close>.\<close>

fun is_clause_satisfied :: "clause \<Rightarrow> assignment \<Rightarrow> bool" where
  "is_clause_satisfied [] assignments = False"
| "is_clause_satisfied (literal # rest) assignments =
     (let var = \<bar>literal\<bar> in
      case map_of assignments var of
        None \<Rightarrow> is_clause_satisfied rest assignments
      | Some b \<Rightarrow>
          if (literal > 0 \<and> b) \<or> (literal < 0 \<and> \<not> b) then True
          else is_clause_satisfied rest assignments)"

text \<open>\<open>SimpleDPLLSolver._is_satisfied\<close> of \<open>example_sat_solver.py\<close>.\<close>

fun is_satisfied :: "clause \<Rightarrow> assignment \<Rightarrow> bool" where
  "is_satisfied [] assignment = False"
| "is_satisfied (literal # rest) assignment =
     (let var = \<bar>literal\<bar> in
      if map_of assignment var \<noteq> None then
        (let val = the (map_of assignment var) in
         if (literal > 0 \<and> val) \<or> (literal < 0 \<and> \<not> val) then True
         else is_satisfied rest assignment)
      else is_satisfied rest assignment)"

section \<open>Properties of the satisfaction check\<close>

text \<open>
  C2. The shared check returns true exactly when some literal of the clause has its
  variable assigned to the value that makes the literal true (a positive literal with
  the variable true, a negative literal with the variable false). Literals of
  unassigned variables are skipped, so a clause whose variables are all unassigned is
  reported unsatisfied.
\<close>

theorem is_clause_satisfied_iff:
  "(is_clause_satisfied c A \<longleftrightarrow>
      (\<exists>l \<in> set c. \<exists>b. map_of A \<bar>l\<bar> = Some b \<and> ((l > 0 \<and> b) \<or> (l < 0 \<and> \<not> b))))
   \<and> ((\<forall>l \<in> set c. map_of A \<bar>l\<bar> = None) \<longrightarrow> is_clause_satisfied c A = False)"
proof -
  have iff: "is_clause_satisfied c A \<longleftrightarrow>
      (\<exists>l \<in> set c. \<exists>b. map_of A \<bar>l\<bar> = Some b \<and> ((l > 0 \<and> b) \<or> (l < 0 \<and> \<not> b)))"
    by (induction c) (auto simp: Let_def split: option.splits)
  then show ?thesis by auto
qed

theorem is_clause_satisfied_iff_witness:
  "is_clause_satisfied [1, -2] [(2, False)] = True
   \<and> is_clause_satisfied [1, -2] [(2, True)] = False
   \<and> map_of [(3 :: int, True)] \<bar>1\<bar> = None \<and> map_of [(3 :: int, True)] \<bar>- 2\<bar> = None
   \<and> is_clause_satisfied [1, -2] [(3, True)] = False"
  using is_clause_satisfied_iff [of "[1, -2]" "[(2, False)]"]
    is_clause_satisfied_iff [of "[1, -2]" "[(3, True)]"]
  by simp

text \<open>
  C9. The check used by the goal-oriented and backward solvers and the DPLL solver's
  own check return the same boolean on every clause and every assignment.
\<close>

theorem is_clause_satisfied_eq_is_satisfied:
  "is_clause_satisfied c A = is_satisfied c A"
  by (induction c) (auto simp: Let_def split: option.splits)

theorem is_clause_satisfied_eq_is_satisfied_witness:
  "is_clause_satisfied [1, -2] [(2, False)] = is_satisfied [1, -2] [(2, False)]
   \<and> is_satisfied [1, -2] [(2, False)] = True"
  using is_clause_satisfied_eq_is_satisfied [of "[1, -2]" "[(2, False)]"]
  by simp

section \<open>Structural transforms (\<open>cnf_transformer.py\<close>)\<close>

text \<open>
  Python raises \<open>IndexError\<close> when a list is read or written outside its range; the
  model returns the error as a value.
\<close>

datatype py_error = IndexError

text \<open>
  \<open>CNFInstance.get_variable_count\<close>: the number of distinct variables that occur. The
  Python set of variables is a duplicate-free list.
\<close>

fun variables_loop :: "int list \<Rightarrow> literal list \<Rightarrow> int list" where
  "variables_loop variables [] = variables"
| "variables_loop variables (literal # rest) =
     variables_loop (List.insert \<bar>literal\<bar> variables) rest"

definition get_variable_count :: "clause list \<Rightarrow> int" where
  "get_variable_count clauses = int (length (foldl variables_loop [] clauses))"

text \<open>
  The item assignment \<open>row[i] = v\<close> of a Python list: a negative index counts from
  the end, and an index outside the list raises.
\<close>

definition list_set :: "'a list \<Rightarrow> int \<Rightarrow> 'a \<Rightarrow> py_error + 'a list" where
  "list_set xs i v =
     (let n = int (length xs); j = (if i < 0 then i + n else i)
      in if 0 \<le> j \<and> j < n then Inr (xs[nat j := v]) else Inl IndexError)"

text \<open>\<open>CNFTransformer.to_matrix_representation\<close>: the loop over the literals of one
  clause, the loop over the clauses, and the function itself.\<close>

fun fill_row :: "int \<Rightarrow> int list \<Rightarrow> clause \<Rightarrow> py_error + int list" where
  "fill_row max_var row [] = Inr row"
| "fill_row max_var row (literal # rest) =
     (case (if literal > 0 then list_set row (literal - 1) 1
            else list_set row (max_var + \<bar>literal\<bar> - 1) 1) of
        Inl e \<Rightarrow> Inl e
      | Inr row' \<Rightarrow> fill_row max_var row' rest)"

fun matrix_loop :: "int \<Rightarrow> int list list \<Rightarrow> clause list \<Rightarrow> py_error + int list list" where
  "matrix_loop max_var matrix [] = Inr matrix"
| "matrix_loop max_var matrix (clause # rest) =
     (case fill_row max_var (replicate (nat (2 * max_var)) 0) clause of
        Inl e \<Rightarrow> Inl e
      | Inr row \<Rightarrow> matrix_loop max_var (matrix @ [row]) rest)"

definition to_matrix_representation ::
  "clause list \<Rightarrow> py_error + (int list list \<times> nat \<times> int)" where
  "to_matrix_representation clauses =
     (let max_var = get_variable_count clauses in
      case matrix_loop max_var [] clauses of
        Inl e \<Rightarrow> Inl e
      | Inr matrix \<Rightarrow> Inr (matrix, length clauses, 2 * max_var))"

text \<open>
  \<open>CNFTransformer.to_adjacency_list\<close>. The result is a dictionary from variables to
  Python sets. \<open>neighbours_loop\<close> is the inner loop over \<open>other_var\<close>, \<open>clause_loop\<close>
  the loop over \<open>var\<close> within one clause.
\<close>

type_synonym adjacency = "(int \<times> int set) list"

fun neighbours_loop :: "int \<Rightarrow> int list \<Rightarrow> int set \<Rightarrow> int set" where
  "neighbours_loop var [] s = s"
| "neighbours_loop var (other_var # rest) s =
     neighbours_loop var rest (if other_var \<noteq> var then insert other_var s else s)"

fun clause_loop :: "int list \<Rightarrow> int list \<Rightarrow> adjacency \<Rightarrow> adjacency" where
  "clause_loop [] variables adjacency = adjacency"
| "clause_loop (var # rest) variables adjacency =
     (let adjacency1 = (if map_of adjacency var = None then AList.update var {} adjacency
                        else adjacency);
          adjacency2 = AList.update var
                         (neighbours_loop var variables (the (map_of adjacency1 var)))
                         adjacency1
      in clause_loop rest variables adjacency2)"

definition to_adjacency_list :: "clause list \<Rightarrow> adjacency" where
  "to_adjacency_list clauses =
     foldl (\<lambda>adjacency clause. clause_loop (map abs clause) (map abs clause) adjacency)
       [] clauses"

subsection \<open>The matrix encoding\<close>

text \<open>
  C5. The matrix encoding sizes each row by the number of distinct variables, and
  indexes it by the variable id. On the formula with the single clause \<open>[5]\<close> (one
  distinct variable, so two columns) the write to column 4 is out of range and the
  transform fails with \<open>IndexError\<close>: it does not complete on every formula.
\<close>

theorem to_matrix_representation_sparse_variable:
  "to_matrix_representation [[5]] = Inl IndexError"
  by (simp add: to_matrix_representation_def get_variable_count_def list_set_def)

subsection \<open>The adjacency graph\<close>

lemma neighbours_loop_eq: "neighbours_loop var others s = s \<union> (set others - {var})"
  by (induction others arbitrary: s) auto

lemma clause_loop_map_of:
  "map_of (clause_loop rest variables adjacency) v =
     (if v \<in> set rest
      then Some ((case map_of adjacency v of None \<Rightarrow> {} | Some s \<Rightarrow> s)
                 \<union> (set variables - {v}))
      else map_of adjacency v)"
  by (induction rest arbitrary: adjacency)
     (auto simp: Let_def update_conv neighbours_loop_eq split: option.splits)

lemma adjacency_fold_map_of:
  "map_of (foldl (\<lambda>adjacency clause. clause_loop (map abs clause) (map abs clause) adjacency)
             adjacency clauses) v =
     (if \<exists>c \<in> set clauses. v \<in> abs ` set c
      then Some ((case map_of adjacency v of None \<Rightarrow> {} | Some s \<Rightarrow> s)
                 \<union> {w. \<exists>c \<in> set clauses. v \<in> abs ` set c \<and> w \<in> abs ` set c \<and> w \<noteq> v})
      else map_of adjacency v)"
proof (induction clauses arbitrary: adjacency)
  case Nil
  then show ?case by simp
next
  case (Cons c cs)
  show ?case
    apply (simp only: foldl_Cons Cons.IH clause_loop_map_of)
    apply (auto split: option.splits)
    done
qed

text \<open>
  C6, as the claim states it, fails: the variable of a clause of size 1 is a key of the
  adjacency map, with the empty set of neighbours.
\<close>

theorem to_adjacency_list_unit_clause_key:
  "map_of (to_adjacency_list [[1]]) 1 = Some {}"
  by (simp add: to_adjacency_list_def)

text \<open>
  C6, amended. A variable is a key of the adjacency map exactly when it occurs in some
  clause (in either polarity, clauses of size 1 included), and its value is the set of
  the other variables that share a clause with it; a variable that never shares a
  clause with another variable is present with the empty set.
\<close>

theorem to_adjacency_list_map_of:
  "map_of (to_adjacency_list clauses) v =
     (if \<exists>c \<in> set clauses. v \<in> abs ` set c
      then Some {w. \<exists>c \<in> set clauses. v \<in> abs ` set c \<and> w \<in> abs ` set c \<and> w \<noteq> v}
      else None)"
  unfolding to_adjacency_list_def by (simp add: adjacency_fold_map_of)

theorem to_adjacency_list_map_of_witness:
  "map_of (to_adjacency_list [[1, -2], [3]]) 1 = Some {2}
   \<and> map_of (to_adjacency_list [[1, -2], [3]]) 3 = Some {}
   \<and> map_of (to_adjacency_list [[1, -2], [3]]) 4 = None"
  using to_adjacency_list_map_of [of "[[1, -2], [3]]" 1]
    to_adjacency_list_map_of [of "[[1, -2], [3]]" 3]
    to_adjacency_list_map_of [of "[[1, -2], [3]]" 4]
  by (auto simp: to_adjacency_list_def)

section \<open>Variables still unassigned\<close>

text \<open>
  The solvers only ever assign variables that are not yet keys of the assignment, and
  the variables they can assign form a finite set. \<open>remaining D a\<close> counts the variables
  of \<open>D\<close> that the assignment \<open>a\<close> has not assigned; it is the measure of every
  termination proof below.
\<close>

definition variables_of :: "clause list \<Rightarrow> int set" where
  "variables_of clauses = abs ` (\<Union>c \<in> set clauses. set c)"

definition remaining :: "int set \<Rightarrow> assignment \<Rightarrow> nat" where
  "remaining D a = card (D - fst ` set a)"

lemma finite_variables_of [simp]: "finite (variables_of clauses)"
  by (simp add: variables_of_def)

lemma nth_variables_of:
  "i < length clauses \<Longrightarrow> abs ` set (clauses ! i) \<subseteq> variables_of clauses"
proof -
  assume "i < length clauses"
  then have "clauses ! i \<in> set clauses" by simp
  then show ?thesis unfolding variables_of_def by blast
qed

lemma remaining_mono: "finite D' \<Longrightarrow> D \<subseteq> D' \<Longrightarrow> remaining D a \<le> remaining D' a"
  unfolding remaining_def by (rule card_mono) auto

lemma remaining_update:
  assumes "finite D'" "D \<subseteq> D'" "k \<in> D'" "map_of a k = None"
  shows "remaining D (AList.update k b a) < remaining D' a"
proof -
  from assms(4) have "k \<notin> fst ` set a" by (simp add: map_of_eq_None_iff)
  with assms(2,3) have "D - fst ` set (AList.update k b a) \<subset> D' - fst ` set a"
    by (auto simp: dom_update)
  then show ?thesis unfolding remaining_def using assms(1) by (intro psubset_card_mono) auto
qed

lemma remaining_update_le:
  "finite D \<Longrightarrow> remaining D (AList.update k b a) \<le> remaining D a"
  unfolding remaining_def by (rule card_mono) (auto simp: dom_update)

lemma remaining_rest:
  "remaining (variables_of cs \<union> abs ` set rest) a
     \<le> remaining (variables_of cs \<union> abs ` set (l # rest)) a"
  by (rule remaining_mono) auto

lemma remaining_assign:
  "map_of a \<bar>l\<bar> = None \<Longrightarrow>
     remaining (variables_of cs) (AList.update \<bar>l\<bar> b a)
       < remaining (variables_of cs \<union> abs ` set (l # rest)) a"
  by (rule remaining_update) auto

lemma remaining_target:
  "i < length cs \<Longrightarrow>
     remaining (variables_of cs \<union> abs ` set (cs ! i)) a = remaining (variables_of cs) a"
  using nth_variables_of [of i cs] by (simp add: Un_absorb2)

section \<open>The backward solver (\<open>tests/sat_solver/backward_3sat_solver.py\<close>)\<close>

text \<open>
  The statistics dictionary of one invocation. \<open>time_taken_sec\<close> is wall-clock time and
  is left out; \<open>status\<close> and \<open>solution\<close> are absent until the search has returned.
\<close>

record backward_stats =
  b_test_case_name :: string
  b_num_variables :: int
  b_num_clauses :: nat
  b_recursive_calls :: nat
  b_backtracks :: nat
  b_branch_choices_count :: nat
  b_defaulted_variables :: "int list"
  b_status :: "string option"
  b_solution :: "assignment option"

text \<open>
  The loop of \<open>_find_solution_recursive\<close> that recomputes the unsatisfied indices;
  \<open>original_clauses[idx]\<close> raises outside the list.
\<close>

fun unsatisfied_loop ::
  "clause list \<Rightarrow> assignment \<Rightarrow> nat list \<Rightarrow> nat list \<Rightarrow> py_error + nat list" where
  "unsatisfied_loop original_clauses new_assignments new_unsatisfied_indices [] =
     Inr new_unsatisfied_indices"
| "unsatisfied_loop original_clauses new_assignments new_unsatisfied_indices (idx # rest) =
     (if idx < length original_clauses then
        unsatisfied_loop original_clauses new_assignments
          (if \<not> is_clause_satisfied (original_clauses ! idx) new_assignments
           then new_unsatisfied_indices @ [idx] else new_unsatisfied_indices)
          rest
      else Inl IndexError)"

text \<open>
  \<open>_find_solution_recursive\<close>, with its loop over the literals of the target clause
  as \<open>literal_loop\<close>. The result is the returned assignment (or \<open>None\<close>) together with
  the statistics as the call leaves them; an exception is the left summand.
\<close>

function find_solution_recursive ::
    "assignment \<Rightarrow> clause list \<Rightarrow> nat list \<Rightarrow> backward_stats
      \<Rightarrow> py_error + (assignment option \<times> backward_stats)"
  and literal_loop ::
    "literal list \<Rightarrow> assignment \<Rightarrow> clause list \<Rightarrow> nat list \<Rightarrow> backward_stats
      \<Rightarrow> py_error + (assignment option \<times> backward_stats)"
where
  "find_solution_recursive current_assignments original_clauses unsatisfied_clause_indices stats =
     (let stats1 = stats\<lparr>b_recursive_calls := b_recursive_calls stats + 1\<rparr> in
      case unsatisfied_clause_indices of
        [] \<Rightarrow> Inr (Some current_assignments, stats1)
      | target_clause_index # _ \<Rightarrow>
          if target_clause_index < length original_clauses then
            literal_loop (original_clauses ! target_clause_index)
              current_assignments original_clauses unsatisfied_clause_indices stats1
          else Inl IndexError)"
| "literal_loop [] current_assignments original_clauses unsatisfied_clause_indices stats =
     Inr (None, stats\<lparr>b_backtracks := b_backtracks stats + 1\<rparr>)"
| "literal_loop (literal # rest) current_assignments original_clauses
       unsatisfied_clause_indices stats =
     (let variable_to_assign = \<bar>literal\<bar>; value_to_assign = (literal > 0) in
      if map_of current_assignments variable_to_assign \<noteq> None then
        (if map_of current_assignments variable_to_assign \<noteq> Some value_to_assign then
           literal_loop rest current_assignments original_clauses
             unsatisfied_clause_indices stats
         else
           literal_loop rest current_assignments original_clauses
             unsatisfied_clause_indices stats)
      else
        (let new_assignments =
               AList.update variable_to_assign value_to_assign current_assignments in
         case unsatisfied_loop original_clauses new_assignments [] unsatisfied_clause_indices of
           Inl e \<Rightarrow> Inl e
         | Inr new_unsatisfied_indices \<Rightarrow>
             (case find_solution_recursive new_assignments original_clauses
                     new_unsatisfied_indices stats of
                Inl e \<Rightarrow> Inl e
              | Inr (Some result, stats') \<Rightarrow>
                  Inr (Some result,
                       stats'\<lparr>b_branch_choices_count := b_branch_choices_count stats' + 1\<rparr>)
              | Inr (None, stats') \<Rightarrow>
                  literal_loop rest current_assignments original_clauses
                    unsatisfied_clause_indices stats')))"
  by pat_completeness auto

termination
proof (relation "measures
    [\<lambda>x. case x of
            Inl (a, cs, u, s) \<Rightarrow> remaining (variables_of cs) a
          | Inr (ls, a, cs, u, s) \<Rightarrow> remaining (variables_of cs \<union> abs ` set ls) a,
     \<lambda>x. case x of Inl _ \<Rightarrow> 1 | Inr _ \<Rightarrow> 0,
     \<lambda>x. case x of Inl _ \<Rightarrow> 0 | Inr (ls, a, cs, u, s) \<Rightarrow> length ls]", goal_cases)
  case 1
  then show ?case by simp
next
  case (2 a cs u s st1 i rest)
  then show ?case by (simp add: remaining_target)
next
  case (3 l rest a cs u s)
  then show ?case using remaining_rest [of cs rest a l] by auto
next
  case (4 l rest a cs u s)
  then show ?case using remaining_rest [of cs rest a l] by auto
next
  case (5 l rest a cs u s)
  then show ?case using remaining_assign [of a l cs "0 < l" rest] by auto
next
  case (6 l rest a cs u s)
  then show ?case using remaining_rest [of cs rest a l] by auto
qed



text \<open>
  The same recursion with a budget of stack frames: \<open>find_solution_depth d\<close> may nest
  at most \<open>d\<close> calls of \<open>_find_solution_recursive\<close>, and is \<open>None\<close> when the search
  would need a deeper call.
\<close>

function find_solution_depth ::
    "nat \<Rightarrow> assignment \<Rightarrow> clause list \<Rightarrow> nat list \<Rightarrow> backward_stats
      \<Rightarrow> (py_error + (assignment option \<times> backward_stats)) option"
  and literal_loop_depth ::
    "nat \<Rightarrow> literal list \<Rightarrow> assignment \<Rightarrow> clause list \<Rightarrow> nat list \<Rightarrow> backward_stats
      \<Rightarrow> (py_error + (assignment option \<times> backward_stats)) option"
where
  "find_solution_depth 0 current_assignments original_clauses unsatisfied_clause_indices stats =
     None"
| "find_solution_depth (Suc d) current_assignments original_clauses
       unsatisfied_clause_indices stats =
     (let stats1 = stats\<lparr>b_recursive_calls := b_recursive_calls stats + 1\<rparr> in
      case unsatisfied_clause_indices of
        [] \<Rightarrow> Some (Inr (Some current_assignments, stats1))
      | target_clause_index # _ \<Rightarrow>
          if target_clause_index < length original_clauses then
            literal_loop_depth d (original_clauses ! target_clause_index)
              current_assignments original_clauses unsatisfied_clause_indices stats1
          else Some (Inl IndexError))"
| "literal_loop_depth d [] current_assignments original_clauses
       unsatisfied_clause_indices stats =
     Some (Inr (None, stats\<lparr>b_backtracks := b_backtracks stats + 1\<rparr>))"
| "literal_loop_depth d (literal # rest) current_assignments original_clauses
       unsatisfied_clause_indices stats =
     (let variable_to_assign = \<bar>literal\<bar>; value_to_assign = (literal > 0) in
      if map_of current_assignments variable_to_assign \<noteq> None then
        (if map_of current_assignments variable_to_assign \<noteq> Some value_to_assign then
           literal_loop_depth d rest current_assignments original_clauses
             unsatisfied_clause_indices stats
         else
           literal_loop_depth d rest current_assignments original_clauses
             unsatisfied_clause_indices stats)
      else
        (let new_assignments =
               AList.update variable_to_assign value_to_assign current_assignments in
         case unsatisfied_loop original_clauses new_assignments [] unsatisfied_clause_indices of
           Inl e \<Rightarrow> Some (Inl e)
         | Inr new_unsatisfied_indices \<Rightarrow>
             (case find_solution_depth d new_assignments original_clauses
                     new_unsatisfied_indices stats of
                None \<Rightarrow> None
              | Some (Inl e) \<Rightarrow> Some (Inl e)
              | Some (Inr (Some result, stats')) \<Rightarrow>
                  Some (Inr (Some result,
                       stats'\<lparr>b_branch_choices_count := b_branch_choices_count stats' + 1\<rparr>))
              | Some (Inr (None, stats')) \<Rightarrow>
                  literal_loop_depth d rest current_assignments original_clauses
                    unsatisfied_clause_indices stats')))"
  by pat_completeness auto

termination
  by (relation "measures
    [\<lambda>x. case x of Inl (d, _) \<Rightarrow> d | Inr (d, _) \<Rightarrow> d,
     \<lambda>x. case x of Inl _ \<Rightarrow> 0 | Inr _ \<Rightarrow> 1,
     \<lambda>x. case x of Inl _ \<Rightarrow> 0 | Inr (d, ls, _) \<Rightarrow> length ls]") auto

subsection \<open>Reasoning about the backward search\<close>

lemma unsatisfied_loop_eq:
  "unsatisfied_loop cls a acc idxs =
     (if \<forall>i \<in> set idxs. i < length cls
      then Inr (acc @ filter (\<lambda>i. \<not> is_clause_satisfied (cls ! i) a) idxs)
      else Inl IndexError)"
  by (induction idxs arbitrary: acc) auto

lemma find_solution_recursive_eq:
  "find_solution_recursive a cls unsat st =
     (case unsat of
        [] \<Rightarrow> Inr (Some a, st\<lparr>b_recursive_calls := b_recursive_calls st + 1\<rparr>)
      | i # u \<Rightarrow>
          if i < length cls
          then literal_loop (cls ! i) a cls unsat
                 (st\<lparr>b_recursive_calls := b_recursive_calls st + 1\<rparr>)
          else Inl IndexError)"
  by (simp add: Let_def split: list.splits)

lemma literal_loop_Cons:
  "literal_loop (l # rest) a cls unsat st =
     (if map_of a \<bar>l\<bar> \<noteq> None then literal_loop rest a cls unsat st
      else case unsatisfied_loop cls (AList.update \<bar>l\<bar> (0 < l) a) [] unsat of
             Inl e \<Rightarrow> Inl e
           | Inr u' \<Rightarrow>
               (case find_solution_recursive (AList.update \<bar>l\<bar> (0 < l) a) cls u' st of
                  Inl e \<Rightarrow> Inl e
                | Inr (Some result, st') \<Rightarrow>
                    Inr (Some result,
                         st'\<lparr>b_branch_choices_count := b_branch_choices_count st' + 1\<rparr>)
                | Inr (None, st') \<Rightarrow> literal_loop rest a cls unsat st'))"
  by (simp add: Let_def)

lemma literal_loop_depth_Cons:
  "literal_loop_depth d (l # rest) a cls unsat st =
     (if map_of a \<bar>l\<bar> \<noteq> None then literal_loop_depth d rest a cls unsat st
      else case unsatisfied_loop cls (AList.update \<bar>l\<bar> (0 < l) a) [] unsat of
             Inl e \<Rightarrow> Some (Inl e)
           | Inr u' \<Rightarrow>
               (case find_solution_depth d (AList.update \<bar>l\<bar> (0 < l) a) cls u' st of
                  None \<Rightarrow> None
                | Some (Inl e) \<Rightarrow> Some (Inl e)
                | Some (Inr (Some result, st')) \<Rightarrow>
                    Some (Inr (Some result,
                         st'\<lparr>b_branch_choices_count := b_branch_choices_count st' + 1\<rparr>))
                | Some (Inr (None, st')) \<Rightarrow> literal_loop_depth d rest a cls unsat st'))"
  by (simp add: Let_def)

text \<open>The induction rule of the search, with the two skipping branches merged.\<close>

lemma backward_induct [case_names find nil skip assign]:
  assumes find: "\<And>a cls unsat st.
      (\<And>i u. unsat = i # u \<Longrightarrow> i < length cls \<Longrightarrow>
         Q (cls ! i) a cls unsat (st\<lparr>b_recursive_calls := b_recursive_calls st + 1\<rparr>))
      \<Longrightarrow> P a cls unsat st"
    and nil: "\<And>a cls unsat st. Q [] a cls unsat st"
    and skip: "\<And>l rest a cls unsat st.
      map_of a \<bar>l\<bar> \<noteq> None \<Longrightarrow> Q rest a cls unsat st \<Longrightarrow> Q (l # rest) a cls unsat st"
    and assign: "\<And>l rest a cls unsat st.
      map_of a \<bar>l\<bar> = None \<Longrightarrow>
      (\<And>u'. unsatisfied_loop cls (AList.update \<bar>l\<bar> (0 < l) a) [] unsat = Inr u' \<Longrightarrow>
         P (AList.update \<bar>l\<bar> (0 < l) a) cls u' st) \<Longrightarrow>
      (\<And>u' st'. unsatisfied_loop cls (AList.update \<bar>l\<bar> (0 < l) a) [] unsat = Inr u' \<Longrightarrow>
         find_solution_recursive (AList.update \<bar>l\<bar> (0 < l) a) cls u' st = Inr (None, st') \<Longrightarrow>
         Q rest a cls unsat st') \<Longrightarrow>
      Q (l # rest) a cls unsat st"
  shows "P a cls unsat st" and "Q ls a cls unsat st"
proof (induction a cls unsat st and ls a cls unsat st
        rule: find_solution_recursive_literal_loop.induct)
  case (1 a cls unsat st)
  show ?case by (rule find) (use 1 in blast)
next
  case (2 a cls unsat st)
  show ?case by (rule nil)
next
  case (3 l rest a cls unsat st)
  show ?case
  proof (cases "map_of a \<bar>l\<bar> = None")
    case True
    show ?thesis
    proof (rule assign [OF True])
      fix u' assume "unsatisfied_loop cls (AList.update \<bar>l\<bar> (0 < l) a) [] unsat = Inr u'"
      with "3.IH"(3) True show "P (AList.update \<bar>l\<bar> (0 < l) a) cls u' st" by blast
    next
      fix u' st'
      assume "unsatisfied_loop cls (AList.update \<bar>l\<bar> (0 < l) a) [] unsat = Inr u'"
        and "find_solution_recursive (AList.update \<bar>l\<bar> (0 < l) a) cls u' st = Inr (None, st')"
      with "3.IH"(4) True show "Q rest a cls unsat st'" by blast
    qed
  next
    case False
    show ?thesis
    proof (rule skip [OF False])
      show "Q rest a cls unsat st"
      proof (cases "map_of a \<bar>l\<bar> \<noteq> Some (0 < l)")
        case True
        with "3.IH"(1) False show ?thesis by blast
      next
        case F: False
        with "3.IH"(2) False show ?thesis by blast
      qed
    qed
  qed
qed

lemmas [simp del] = find_solution_recursive.simps literal_loop.simps(2)
  find_solution_depth.simps(2) literal_loop_depth.simps(2)

lemma find_solution_depth_Suc:
  "find_solution_depth (Suc d) a cls unsat st =
     (case unsat of
        [] \<Rightarrow> Some (Inr (Some a, st\<lparr>b_recursive_calls := b_recursive_calls st + 1\<rparr>))
      | i # u \<Rightarrow>
          if i < length cls
          then literal_loop_depth d (cls ! i) a cls unsat
                 (st\<lparr>b_recursive_calls := b_recursive_calls st + 1\<rparr>)
          else Some (Inl IndexError))"
  by (simp add: find_solution_depth.simps(2) Let_def split: list.splits)


text \<open>
  A frame budget above the number of variables still unassigned is never exhausted:
  the budgeted search then returns what the search returns.
\<close>

lemma backward_depth_enough:
  "remaining (variables_of cls) a < d \<Longrightarrow>
     find_solution_depth d a cls unsat st = Some (find_solution_recursive a cls unsat st)"
  "remaining (variables_of cls \<union> abs ` set ls) a \<le> d \<Longrightarrow>
     literal_loop_depth d ls a cls unsat st = Some (literal_loop ls a cls unsat st)"
proof (induction a cls unsat st and ls a cls unsat st arbitrary: d and d
         rule: backward_induct)
  case (find a cls unsat st)
  from find.prems obtain d' where d: "d = Suc d'" by (cases d) auto
  show ?case
  proof (cases unsat)
    case Nil
    then show ?thesis by (simp add: d find_solution_recursive_eq find_solution_depth_Suc)
  next
    case (Cons i u)
    show ?thesis
    proof (cases "i < length cls")
      case True
      have "remaining (variables_of cls \<union> abs ` set (cls ! i)) a \<le> d'"
        using find.prems d by (simp add: remaining_target [OF True])
      from find.IH [OF Cons True this] show ?thesis
        by (simp add: d Cons True find_solution_recursive_eq find_solution_depth_Suc)
    next
      case False
      then show ?thesis
        by (simp add: d Cons find_solution_recursive_eq find_solution_depth_Suc)
    qed
  qed
next
  case (nil a cls unsat st)
  then show ?case by simp
next
  case (skip l rest a cls unsat st)
  have "remaining (variables_of cls \<union> abs ` set rest) a \<le> d"
    using skip.prems remaining_rest [of cls rest a l] by simp
  from skip.IH [OF this] skip.hyps show ?case
    by (simp add: literal_loop_Cons literal_loop_depth_Cons)
next
  case (assign l rest a cls unsat st)
  let ?a' = "AList.update \<bar>l\<bar> (0 < l) a"
  have less: "remaining (variables_of cls) ?a' < d"
    using assign.prems remaining_assign [OF assign.hyps, of cls "0 < l" rest] by simp
  have rest: "remaining (variables_of cls \<union> abs ` set rest) a \<le> d"
    using assign.prems remaining_rest [of cls rest a l] by simp
  show ?case
  proof (cases "unsatisfied_loop cls ?a' [] unsat")
    case (Inl e)
    then show ?thesis using assign.hyps
      by (simp add: literal_loop_Cons literal_loop_depth_Cons)
  next
    case (Inr u')
    note fd = assign.IH(1) [OF Inr less]
    show ?thesis
    proof (cases "find_solution_recursive ?a' cls u' st")
      case (Inl e)
      then show ?thesis using assign.hyps Inr fd
        by (simp add: literal_loop_Cons literal_loop_depth_Cons)
    next
      case r: (Inr r)
      obtain res st' where rs: "r = (res, st')" by (cases r)
      show ?thesis
      proof (cases res)
        case None
        from assign.IH(2) [OF Inr _ rest, of st'] r rs None
        show ?thesis using assign.hyps Inr fd
          by (simp add: literal_loop_Cons literal_loop_depth_Cons)
      next
        case (Some sol)
        then show ?thesis using assign.hyps Inr fd r rs
          by (simp add: literal_loop_Cons literal_loop_depth_Cons)
      qed
    qed
  qed
qed

section \<open>The goal-oriented solver (\<open>tests/sat_solver/goal_oriented_sat_solver.py\<close>)\<close>

text \<open>The statistics dictionary of one invocation.\<close>

record goal_stats =
  g_recursive_calls :: nat
  g_backtracks_on_branch :: nat
  g_heuristic_choices_count :: nat
  g_branch_choices_count :: nat
  g_defaulted_variables :: "int list"

type_synonym assignment_types = "(int \<times> string) list"

text \<open>
  \<open>_get_unsatisfied_clause_indices\<close>: the list comprehension over the indices that are
  currently unsatisfied.
\<close>

fun get_unsatisfied_clause_indices ::
  "clause list \<Rightarrow> assignment \<Rightarrow> nat list \<Rightarrow> py_error + nat list" where
  "get_unsatisfied_clause_indices clauses assignments [] = Inr []"
| "get_unsatisfied_clause_indices clauses assignments (i # rest) =
     (if i < length clauses then
        (let keep = \<not> is_clause_satisfied (clauses ! i) assignments in
         case get_unsatisfied_clause_indices clauses assignments rest of
           Inl e \<Rightarrow> Inl e
         | Inr r \<Rightarrow> Inr (if keep then i # r else r))
      else Inl IndexError)"

text \<open>\<open>_is_clause_contradiction\<close> and \<open>_check_for_contradiction\<close>.\<close>

fun is_clause_contradiction :: "clause \<Rightarrow> assignment \<Rightarrow> bool" where
  "is_clause_contradiction [] assignments = True"
| "is_clause_contradiction (literal # rest) assignments =
     (let var = \<bar>literal\<bar> in
      case map_of assignments var of
        None \<Rightarrow> False
      | Some b \<Rightarrow>
          if (literal > 0 \<and> b) \<or> (literal < 0 \<and> \<not> b) then False
          else is_clause_contradiction rest assignments)"

fun check_for_contradiction :: "clause list \<Rightarrow> assignment \<Rightarrow> bool" where
  "check_for_contradiction [] assignments = False"
| "check_for_contradiction (clause # rest) assignments =
     (if is_clause_contradiction clause assignments then True
      else check_for_contradiction rest assignments)"

text \<open>
  \<open>_evaluate_variable_assignment\<close>: whether the tentative assignment contradicts a
  clause, how many unsatisfied clauses it satisfies, and the indices that remain.
\<close>

definition evaluate_variable_assignment ::
  "int \<Rightarrow> bool \<Rightarrow> assignment \<Rightarrow> clause list \<Rightarrow> nat list
    \<Rightarrow> py_error + (bool \<times> int \<times> nat list)" where
  "evaluate_variable_assignment variable val current_assignments original_clauses
       unsatisfied_clause_indices =
     (let potential_assignment = AList.update variable val current_assignments in
      case get_unsatisfied_clause_indices original_clauses potential_assignment
             unsatisfied_clause_indices of
        Inl e \<Rightarrow> Inl e
      | Inr remaining_unsatisfied \<Rightarrow>
          (let newly_satisfied_count =
                 int (length unsatisfied_clause_indices) - int (length remaining_unsatisfied);
               causes_contradiction =
                 check_for_contradiction original_clauses potential_assignment
           in Inr (causes_contradiction, newly_satisfied_count, remaining_unsatisfied)))"

text \<open>
  \<open>_make_heuristic_decision\<close>. Python returns the pair \<open>(variable, value)\<close> or
  \<open>(None, None)\<close>; the model returns the pair or \<open>None\<close>.
\<close>

definition make_heuristic_decision ::
  "int \<Rightarrow> bool \<Rightarrow> bool \<Rightarrow> int \<Rightarrow> int \<Rightarrow> int \<Rightarrow> (int \<times> bool) option" where
  "make_heuristic_decision variable true_contradiction false_contradiction
       true_satisfied_count false_satisfied_count heuristic_factor =
     (if \<not> true_contradiction \<and> false_contradiction then Some (variable, True)
      else if \<not> false_contradiction \<and> true_contradiction then Some (variable, False)
      else if \<not> true_contradiction \<and> \<not> false_contradiction then
        (if true_satisfied_count > false_satisfied_count + heuristic_factor
           then Some (variable, True)
         else if false_satisfied_count > true_satisfied_count + heuristic_factor
           then Some (variable, False)
         else None)
      else None)"

text \<open>The variables the goal-oriented search can assign.\<close>

lemma make_heuristic_decision_variable:
  "make_heuristic_decision variable tc fc tn fn h = Some (v, b) \<Longrightarrow> v = variable"
  by (auto simp: make_heuristic_decision_def split: if_splits)

definition goal_domain :: "int \<Rightarrow> clause list \<Rightarrow> int set" where
  "goal_domain num_variables clauses = variables_of clauses \<union> {1..num_variables}"

lemma finite_goal_domain [simp]: "finite (goal_domain n cls)"
  by (simp add: goal_domain_def)

text \<open>
  The mutually recursive search: \<open>_recursive_solve_with_heuristic\<close>, its loop over
  \<open>range(1, num_variables + 1)\<close> (\<open>heuristic_loop\<close>, which ends in the branching
  step), \<open>_apply_heuristic_for_variable\<close>, \<open>_try_branch_on_target_clause\<close> and its
  loop over the literals of the target clause (\<open>branch_loop\<close>). Python returns the pair
  \<open>(solution, assignment_types)\<close> or \<open>(None, None)\<close>; the model returns the pair or
  \<open>None\<close>, together with the statistics as the call leaves them.
\<close>

type_synonym goal_result = "py_error + ((assignment \<times> assignment_types) option \<times> goal_stats)"

function recursive_solve_with_heuristic ::
    "assignment \<Rightarrow> assignment_types \<Rightarrow> clause list \<Rightarrow> nat list \<Rightarrow> goal_stats \<Rightarrow> int
      \<Rightarrow> goal_result"
  and heuristic_loop ::
    "int list \<Rightarrow> assignment \<Rightarrow> assignment_types \<Rightarrow> clause list \<Rightarrow> nat list \<Rightarrow> goal_stats
      \<Rightarrow> int \<Rightarrow> int \<Rightarrow> goal_result"
  and apply_heuristic_for_variable ::
    "int \<Rightarrow> assignment \<Rightarrow> assignment_types \<Rightarrow> clause list \<Rightarrow> nat list \<Rightarrow> goal_stats
      \<Rightarrow> int \<Rightarrow> int \<Rightarrow> goal_result"
  and try_branch_on_target_clause ::
    "nat \<Rightarrow> clause list \<Rightarrow> assignment \<Rightarrow> assignment_types \<Rightarrow> nat list \<Rightarrow> goal_stats
      \<Rightarrow> int \<Rightarrow> goal_result"
  and branch_loop ::
    "literal list \<Rightarrow> clause list \<Rightarrow> assignment \<Rightarrow> assignment_types \<Rightarrow> nat list
      \<Rightarrow> goal_stats \<Rightarrow> int \<Rightarrow> goal_result"
where
  "recursive_solve_with_heuristic current_assignments assignment_types original_clauses
       unsatisfied_clause_indices stats num_variables =
     (let stats1 = stats\<lparr>g_recursive_calls := g_recursive_calls stats + 1\<rparr> in
      if unsatisfied_clause_indices = [] then
        Inr (Some (current_assignments, assignment_types), stats1)
      else
        (let heuristic_factor = 1 in
         heuristic_loop [1..num_variables] current_assignments assignment_types
           original_clauses unsatisfied_clause_indices stats1 num_variables heuristic_factor))"
| "heuristic_loop [] current_assignments assignment_types original_clauses
       unsatisfied_clause_indices stats num_variables heuristic_factor =
     (let stats1 = stats\<lparr>g_branch_choices_count := g_branch_choices_count stats + 1\<rparr> in
      case unsatisfied_clause_indices of
        [] \<Rightarrow> Inr (Some (current_assignments, assignment_types), stats1)
      | target_clause_idx # _ \<Rightarrow>
          try_branch_on_target_clause target_clause_idx original_clauses current_assignments
            assignment_types unsatisfied_clause_indices stats1 num_variables)"
| "heuristic_loop (variable # rest) current_assignments assignment_types original_clauses
       unsatisfied_clause_indices stats num_variables heuristic_factor =
     (case apply_heuristic_for_variable variable current_assignments assignment_types
             original_clauses unsatisfied_clause_indices stats num_variables
             heuristic_factor of
        Inl e \<Rightarrow> Inl e
      | Inr (Some result, stats') \<Rightarrow> Inr (Some result, stats')
      | Inr (None, stats') \<Rightarrow>
          heuristic_loop rest current_assignments assignment_types original_clauses
            unsatisfied_clause_indices stats' num_variables heuristic_factor)"
| "apply_heuristic_for_variable variable current_assignments assignment_types
       original_clauses unsatisfied_clause_indices stats num_variables heuristic_factor =
     (if map_of current_assignments variable \<noteq> None then Inr (None, stats)
      else
        case evaluate_variable_assignment variable True current_assignments
               original_clauses unsatisfied_clause_indices of
          Inl e \<Rightarrow> Inl e
        | Inr (true_contradiction, true_satisfied_count, remaining_unsatisfied_true) \<Rightarrow>
        (case evaluate_variable_assignment variable False current_assignments
               original_clauses unsatisfied_clause_indices of
          Inl e \<Rightarrow> Inl e
        | Inr (false_contradiction, false_satisfied_count, remaining_unsatisfied_false) \<Rightarrow>
        (case make_heuristic_decision variable true_contradiction false_contradiction
                true_satisfied_count false_satisfied_count heuristic_factor of
           Some (variable_to_force, value_to_force) \<Rightarrow>
             (let stats1 = stats\<lparr>g_heuristic_choices_count :=
                                     g_heuristic_choices_count stats + 1\<rparr>;
                  new_assignments =
                    AList.update variable_to_force value_to_force current_assignments;
                  new_assignment_types =
                    AList.update variable_to_force ''Heuristic Set'' assignment_types;
                  new_unsatisfied_indices =
                    (if value_to_force then remaining_unsatisfied_true
                     else remaining_unsatisfied_false)
              in recursive_solve_with_heuristic new_assignments new_assignment_types
                   original_clauses new_unsatisfied_indices stats1 num_variables)
         | None \<Rightarrow> Inr (None, stats))))"
| "try_branch_on_target_clause target_clause_idx original_clauses current_assignments
       assignment_types unsatisfied_clause_indices stats num_variables =
     (if target_clause_idx < length original_clauses then
        branch_loop (original_clauses ! target_clause_idx) original_clauses
          current_assignments assignment_types unsatisfied_clause_indices stats num_variables
      else Inl IndexError)"
| "branch_loop [] original_clauses current_assignments assignment_types
       unsatisfied_clause_indices stats num_variables =
     Inr (None, stats\<lparr>g_backtracks_on_branch := g_backtracks_on_branch stats + 1\<rparr>)"
| "branch_loop (literal # rest) original_clauses current_assignments assignment_types
       unsatisfied_clause_indices stats num_variables =
     (let variable = \<bar>literal\<bar> in
      if map_of current_assignments variable \<noteq> None then
        branch_loop rest original_clauses current_assignments assignment_types
          unsatisfied_clause_indices stats num_variables
      else
        (let new_assignments = AList.update variable (literal > 0) current_assignments;
             new_assignment_types = AList.update variable ''Branch Set'' assignment_types
         in case get_unsatisfied_clause_indices original_clauses new_assignments
                   unsatisfied_clause_indices of
              Inl e \<Rightarrow> Inl e
            | Inr new_unsatisfied_indices \<Rightarrow>
                if check_for_contradiction original_clauses new_assignments then
                  branch_loop rest original_clauses current_assignments assignment_types
                    unsatisfied_clause_indices
                    (stats\<lparr>g_backtracks_on_branch := g_backtracks_on_branch stats + 1\<rparr>)
                    num_variables
                else
                  (case recursive_solve_with_heuristic new_assignments new_assignment_types
                          original_clauses new_unsatisfied_indices stats num_variables of
                     Inl e \<Rightarrow> Inl e
                   | Inr (Some result, stats') \<Rightarrow> Inr (Some result, stats')
                   | Inr (None, stats') \<Rightarrow>
                       branch_loop rest original_clauses current_assignments
                         assignment_types unsatisfied_clause_indices stats' num_variables)))"
  by pat_completeness auto


termination
proof (relation "measures
    [\<lambda>x. case x of
        Inl (Inl (a, t, cs, u, s, n)) \<Rightarrow> remaining (goal_domain n cs) a
      | Inl (Inr (vs, a, t, cs, u, s, n, h)) \<Rightarrow> remaining (goal_domain n cs \<union> set vs) a
      | Inr (Inl (v, a, t, cs, u, s, n, h)) \<Rightarrow> remaining (goal_domain n cs \<union> {v}) a
      | Inr (Inr (Inl (i, cs, a, t, u, s, n))) \<Rightarrow> remaining (goal_domain n cs) a
      | Inr (Inr (Inr (ls, cs, a, t, u, s, n))) \<Rightarrow>
          remaining (goal_domain n cs \<union> abs ` set ls) a,
     \<lambda>x. case x of
        Inl (Inl _) \<Rightarrow> 4 | Inl (Inr _) \<Rightarrow> 3 | Inr (Inl _) \<Rightarrow> 2
      | Inr (Inr (Inl _)) \<Rightarrow> 1 | Inr (Inr (Inr _)) \<Rightarrow> 0,
     \<lambda>x. case x of
        Inl (Inr (vs, _)) \<Rightarrow> length vs
      | Inr (Inr (Inr (ls, _))) \<Rightarrow> length ls
      | _ \<Rightarrow> 0]", goal_cases)
  case 1
  then show ?case by simp
next
  case (2 a t cs u s n s1 h)
  have "goal_domain n cs \<union> set [1..n] = goal_domain n cs" by (auto simp: goal_domain_def)
  then show ?case by simp
next
  case (3 a t cs u s n h s1 i rest)
  then show ?case by simp
next
  case (4 v rest a t cs u s n h)
  have "remaining (goal_domain n cs \<union> {v}) a \<le> remaining (goal_domain n cs \<union> set (v # rest)) a"
    by (rule remaining_mono) auto
  then show ?case by auto
next
  case (5 v rest a t cs u s n h)
  have "remaining (goal_domain n cs \<union> set rest) a \<le> remaining (goal_domain n cs \<union> set (v # rest)) a"
    by (rule remaining_mono) auto
  then show ?case by auto
next
  case (6 v a t cs u s n h b tc y tn rt ba fc yb fn rf x2 vf valf s1 a' t' u')
  from 6 have vf: "vf = v" using make_heuristic_decision_variable by metis
  have "remaining (goal_domain n cs) (AList.update v valf a)
      < remaining (goal_domain n cs \<union> {v}) a"
    by (rule remaining_update) (use 6 in auto)
  then show ?case using 6 vf by simp
next
  case (7 i cs a t u s n)
  have "abs ` set (cs ! i) \<subseteq> goal_domain n cs"
    using nth_variables_of [OF 7] by (auto simp: goal_domain_def)
  then show ?case by (simp add: Un_absorb2)
next
  case (8 l rest cs a t u s n)
  have "remaining (goal_domain n cs \<union> abs ` set rest) a
      \<le> remaining (goal_domain n cs \<union> abs ` set (l # rest)) a"
    by (rule remaining_mono) auto
  then show ?case by auto
next
  case (9 l rest cs a t u s n)
  have "remaining (goal_domain n cs \<union> abs ` set rest) a
      \<le> remaining (goal_domain n cs \<union> abs ` set (l # rest)) a"
    by (rule remaining_mono) auto
  then show ?case by auto
next
  case (10 l rest cs a t u s n)
  have "remaining (goal_domain n cs) (AList.update \<bar>l\<bar> (0 < l) a)
      < remaining (goal_domain n cs \<union> abs ` set (l # rest)) a"
    by (rule remaining_update) (use 10 in auto)
  then show ?case using 10 by simp
next
  case (11 l rest cs a t u s n)
  have "remaining (goal_domain n cs \<union> abs ` set rest) a
      \<le> remaining (goal_domain n cs \<union> abs ` set (l # rest)) a"
    by (rule remaining_mono) auto
  then show ?case by auto
qed


subsection \<open>Reasoning about the goal-oriented search\<close>

lemma recursive_solve_with_heuristic_eq:
  "recursive_solve_with_heuristic a t cls u st n =
     (if u = [] then Inr (Some (a, t), st\<lparr>g_recursive_calls := g_recursive_calls st + 1\<rparr>)
      else heuristic_loop [1..n] a t cls u
             (st\<lparr>g_recursive_calls := g_recursive_calls st + 1\<rparr>) n 1)"
  by (simp add: Let_def)

lemma heuristic_loop_Nil:
  "heuristic_loop [] a t cls u st n h =
     (case u of
        [] \<Rightarrow> Inr (Some (a, t), st\<lparr>g_branch_choices_count := g_branch_choices_count st + 1\<rparr>)
      | i # _ \<Rightarrow> try_branch_on_target_clause i cls a t u
                  (st\<lparr>g_branch_choices_count := g_branch_choices_count st + 1\<rparr>) n)"
  by (simp add: Let_def split: list.splits)

lemma apply_heuristic_for_variable_eq:
  "apply_heuristic_for_variable v a t cls u st n h =
     (if map_of a v \<noteq> None then Inr (None, st)
      else
        case evaluate_variable_assignment v True a cls u of
          Inl e \<Rightarrow> Inl e
        | Inr (tc, tn, rt) \<Rightarrow>
        (case evaluate_variable_assignment v False a cls u of
          Inl e \<Rightarrow> Inl e
        | Inr (fc, fn, rf) \<Rightarrow>
        (case make_heuristic_decision v tc fc tn fn h of
           Some (vf, b) \<Rightarrow>
             recursive_solve_with_heuristic (AList.update v b a)
               (AList.update v ''Heuristic Set'' t) cls (if b then rt else rf)
               (st\<lparr>g_heuristic_choices_count := g_heuristic_choices_count st + 1\<rparr>) n
         | None \<Rightarrow> Inr (None, st))))"
  by (auto simp: Let_def split: sum.splits option.splits prod.splits
      dest: make_heuristic_decision_variable)

lemma branch_loop_Cons:
  "branch_loop (l # rest) cls a t u st n =
     (if map_of a \<bar>l\<bar> \<noteq> None then branch_loop rest cls a t u st n
      else
        case get_unsatisfied_clause_indices cls (AList.update \<bar>l\<bar> (0 < l) a) u of
          Inl e \<Rightarrow> Inl e
        | Inr u' \<Rightarrow>
            if check_for_contradiction cls (AList.update \<bar>l\<bar> (0 < l) a) then
              branch_loop rest cls a t u
                (st\<lparr>g_backtracks_on_branch := g_backtracks_on_branch st + 1\<rparr>) n
            else
              (case recursive_solve_with_heuristic (AList.update \<bar>l\<bar> (0 < l) a)
                      (AList.update \<bar>l\<bar> ''Branch Set'' t) cls u' st n of
                 Inl e \<Rightarrow> Inl e
               | Inr (Some result, st') \<Rightarrow> Inr (Some result, st')
               | Inr (None, st') \<Rightarrow> branch_loop rest cls a t u st' n))"
  by (simp add: Let_def)

lemma goal_induct [case_names solve loop_nil loop_cons heur target nil skip assign]:
  assumes solve: "\<And>a t cls u st n.
      (u \<noteq> [] \<Longrightarrow>
         P2 [1..n] a t cls u (st\<lparr>g_recursive_calls := g_recursive_calls st + 1\<rparr>) n 1)
      \<Longrightarrow> P1 a t cls u st n"
    and loop_nil: "\<And>a t cls u st n h.
      (\<And>i u'. u = i # u' \<Longrightarrow>
         P4 i cls a t u (st\<lparr>g_branch_choices_count := g_branch_choices_count st + 1\<rparr>) n)
      \<Longrightarrow> P2 [] a t cls u st n h"
    and loop_cons: "\<And>v rest a t cls u st n h.
      P3 v a t cls u st n h \<Longrightarrow>
      (\<And>st'. apply_heuristic_for_variable v a t cls u st n h = Inr (None, st') \<Longrightarrow>
         P2 rest a t cls u st' n h)
      \<Longrightarrow> P2 (v # rest) a t cls u st n h"
    and heur: "\<And>v a t cls u st n h.
      (\<And>tc tn rt fc fn rf b.
         map_of a v = None \<Longrightarrow>
         evaluate_variable_assignment v True a cls u = Inr (tc, tn, rt) \<Longrightarrow>
         evaluate_variable_assignment v False a cls u = Inr (fc, fn, rf) \<Longrightarrow>
         make_heuristic_decision v tc fc tn fn h = Some (v, b) \<Longrightarrow>
         P1 (AList.update v b a) (AList.update v ''Heuristic Set'' t) cls
            (if b then rt else rf)
            (st\<lparr>g_heuristic_choices_count := g_heuristic_choices_count st + 1\<rparr>) n)
      \<Longrightarrow> P3 v a t cls u st n h"
    and target: "\<And>i cls a t u st n.
      (i < length cls \<Longrightarrow> P5 (cls ! i) cls a t u st n) \<Longrightarrow> P4 i cls a t u st n"
    and nil: "\<And>cls a t u st n. P5 [] cls a t u st n"
    and skip: "\<And>l rest cls a t u st n.
      map_of a \<bar>l\<bar> \<noteq> None \<Longrightarrow> P5 rest cls a t u st n \<Longrightarrow> P5 (l # rest) cls a t u st n"
    and assign: "\<And>l rest cls a t u st n.
      map_of a \<bar>l\<bar> = None \<Longrightarrow>
      (\<And>u'. get_unsatisfied_clause_indices cls (AList.update \<bar>l\<bar> (0 < l) a) u = Inr u' \<Longrightarrow>
         check_for_contradiction cls (AList.update \<bar>l\<bar> (0 < l) a) \<Longrightarrow>
         P5 rest cls a t u
           (st\<lparr>g_backtracks_on_branch := g_backtracks_on_branch st + 1\<rparr>) n) \<Longrightarrow>
      (\<And>u'. get_unsatisfied_clause_indices cls (AList.update \<bar>l\<bar> (0 < l) a) u = Inr u' \<Longrightarrow>
         \<not> check_for_contradiction cls (AList.update \<bar>l\<bar> (0 < l) a) \<Longrightarrow>
         P1 (AList.update \<bar>l\<bar> (0 < l) a) (AList.update \<bar>l\<bar> ''Branch Set'' t) cls u' st n) \<Longrightarrow>
      (\<And>u' st'. get_unsatisfied_clause_indices cls (AList.update \<bar>l\<bar> (0 < l) a) u = Inr u' \<Longrightarrow>
         \<not> check_for_contradiction cls (AList.update \<bar>l\<bar> (0 < l) a) \<Longrightarrow>
         recursive_solve_with_heuristic (AList.update \<bar>l\<bar> (0 < l) a)
           (AList.update \<bar>l\<bar> ''Branch Set'' t) cls u' st n = Inr (None, st') \<Longrightarrow>
         P5 rest cls a t u st' n) \<Longrightarrow>
      P5 (l # rest) cls a t u st n"
  shows "P1 a t cls u st n" and "P2 vs a t cls u st n h" and "P3 v a t cls u st n h"
    and "P4 i cls a t u st n" and "P5 ls cls a t u st n"
proof (induction a t cls u st n and vs a t cls u st n h and v a t cls u st n h
         and i cls a t u st n and ls cls a t u st n
        rule: recursive_solve_with_heuristic_heuristic_loop_apply_heuristic_for_variable_try_branch_on_target_clause_branch_loop.induct)
  case (1 a t cls u st n)
  show ?case by (rule solve) (use 1 in blast)
next
  case (2 a t cls u st n h)
  show ?case by (rule loop_nil) (use 2 in blast)
next
  case (3 v rest a t cls u st n h)
  show ?case
  proof (rule loop_cons)
    show "P3 v a t cls u st n h" by (rule 3)
  next
    fix st' assume "apply_heuristic_for_variable v a t cls u st n h = Inr (None, st')"
    with "3.IH"(2) show "P2 rest a t cls u st' n h" by blast
  qed
next
  case (4 v a t cls u st n h)
  show ?case
  proof (rule heur, goal_cases)
    case (1 tc tn rt fc fn rf b)
    with 4 [of "(tc, tn, rt)" tc "(tn, rt)" tn rt "(fc, fn, rf)" fc "(fn, rf)" fn rf "(v, b)" v b]
    show ?case by simp
  qed
next
  case (5 i cls a t u st n)
  show ?case by (rule target) (use 5 in blast)
next
  case (6 cls a t u st n)
  show ?case by (rule nil)
next
  case (7 l rest cls a t u st n)
  show ?case
  proof (cases "map_of a \<bar>l\<bar> = None")
    case True
    show ?thesis
    proof (rule assign [OF True], goal_cases)
      case (1 u')
      with "7.IH"(2) True show ?case by blast
    next
      case (2 u')
      with "7.IH"(3) True show ?case by blast
    next
      case (3 u' st')
      with "7.IH"(4) True show ?case by blast
    qed
  next
    case False
    with "7.IH"(1) show ?thesis by (intro skip) blast+
  qed
qed


lemmas [simp del] = recursive_solve_with_heuristic.simps heuristic_loop.simps(1)
  apply_heuristic_for_variable.simps branch_loop.simps(2)

section \<open>The DPLL solver (\<open>example_sat_solver.py\<close>)\<close>

text \<open>The \<open>statistics\<close> dictionary of the solver object.\<close>

record dpll_stats =
  d_decisions :: nat
  d_unit_propagations :: nat
  d_conflicts :: nat
  d_backtracks :: nat

text \<open>
  \<open>_find_unit_clause\<close>: the first clause that is not satisfied and has exactly one
  literal whose variable is unassigned; the result is the list of that one literal.
\<close>

fun unassigned_literals :: "clause \<Rightarrow> assignment \<Rightarrow> literal list \<Rightarrow> literal list" where
  "unassigned_literals [] assignment acc = acc"
| "unassigned_literals (literal # rest) assignment acc =
     (let var = \<bar>literal\<bar> in
      if map_of assignment var = None
      then unassigned_literals rest assignment (acc @ [literal])
      else unassigned_literals rest assignment acc)"

fun find_unit_clause :: "clause list \<Rightarrow> assignment \<Rightarrow> literal list option" where
  "find_unit_clause [] assignment = None"
| "find_unit_clause (clause # rest) assignment =
     (if is_satisfied clause assignment then find_unit_clause rest assignment
      else
        (let unassigned = unassigned_literals clause assignment [] in
         if length unassigned = 1 then Some unassigned
         else find_unit_clause rest assignment))"

text \<open>
  \<open>_find_pure_literal\<close>. A Python set is a duplicate-free list. \<open>next(iter(s))\<close>
  returns some element of the set \<open>s\<close>, which one depends on the hash table; the
  parameter \<open>pick\<close> stands for that order, and \<open>next_iter\<close> keeps its choice inside
  the set.
\<close>

definition set_add :: "int \<Rightarrow> int list \<Rightarrow> int list" where
  "set_add x xs = (if x \<in> set xs then xs else xs @ [x])"

definition next_iter :: "(int list \<Rightarrow> int) \<Rightarrow> int list \<Rightarrow> int" where
  "next_iter pick xs = (let x = pick xs in if x \<in> set xs then x else hd xs)"

fun collect_literals ::
  "clause \<Rightarrow> assignment \<Rightarrow> int list \<times> int list \<Rightarrow> int list \<times> int list" where
  "collect_literals [] assignment (positive_vars, negative_vars) =
     (positive_vars, negative_vars)"
| "collect_literals (literal # rest) assignment (positive_vars, negative_vars) =
     (let var = \<bar>literal\<bar> in
      if map_of assignment var = None then
        (if literal > 0
         then collect_literals rest assignment (set_add var positive_vars, negative_vars)
         else collect_literals rest assignment (positive_vars, set_add var negative_vars))
      else collect_literals rest assignment (positive_vars, negative_vars))"

fun collect_clauses ::
  "clause list \<Rightarrow> assignment \<Rightarrow> int list \<times> int list \<Rightarrow> int list \<times> int list" where
  "collect_clauses [] assignment sets = sets"
| "collect_clauses (clause # rest) assignment sets =
     (if is_satisfied clause assignment then collect_clauses rest assignment sets
      else collect_clauses rest assignment (collect_literals clause assignment sets))"

definition find_pure_literal ::
  "(int list \<Rightarrow> int) \<Rightarrow> clause list \<Rightarrow> assignment \<Rightarrow> int option" where
  "find_pure_literal pick clauses assignment =
     (let (positive_vars, negative_vars) = collect_clauses clauses assignment ([], []);
          pure_positive = filter (\<lambda>v. v \<notin> set negative_vars) positive_vars;
          pure_negative = filter (\<lambda>v. v \<notin> set positive_vars) negative_vars
      in if pure_positive \<noteq> [] then Some (next_iter pick pure_positive)
         else if pure_negative \<noteq> [] then Some (- next_iter pick pure_negative)
         else None)"

text \<open>
  \<open>_choose_variable\<close>. \<open>var_count\<close> is a dictionary in insertion order, and \<open>max\<close>
  returns the first item with the largest count.
\<close>

fun count_literals :: "clause \<Rightarrow> assignment \<Rightarrow> (int \<times> nat) list \<Rightarrow> (int \<times> nat) list" where
  "count_literals [] assignment var_count = var_count"
| "count_literals (literal # rest) assignment var_count =
     (let var = \<bar>literal\<bar> in
      if map_of assignment var = None then
        count_literals rest assignment
          (AList.update var
             ((case map_of var_count var of None \<Rightarrow> 0 | Some c \<Rightarrow> c) + 1) var_count)
      else count_literals rest assignment var_count)"

fun count_clauses :: "clause list \<Rightarrow> assignment \<Rightarrow> (int \<times> nat) list \<Rightarrow> (int \<times> nat) list" where
  "count_clauses [] assignment var_count = var_count"
| "count_clauses (clause # rest) assignment var_count =
     (if is_satisfied clause assignment then count_clauses rest assignment var_count
      else count_clauses rest assignment (count_literals clause assignment var_count))"

fun max_item :: "int \<times> nat \<Rightarrow> (int \<times> nat) list \<Rightarrow> int \<times> nat" where
  "max_item best [] = best"
| "max_item best (x # xs) = max_item (if snd x > snd best then x else best) xs"

definition choose_variable :: "clause list \<Rightarrow> assignment \<Rightarrow> int option" where
  "choose_variable clauses assignment =
     (case count_clauses clauses assignment [] of
        [] \<Rightarrow> None
      | x # xs \<Rightarrow> Some (fst (max_item x xs)))"

text \<open>
  \<open>_has_conflict\<close>: \<open>scan_clause\<close> is the inner loop and returns the flags
  \<open>(all_false, has_unassigned)\<close>. \<open>_all_satisfied\<close> follows.
\<close>

fun scan_clause :: "clause \<Rightarrow> assignment \<Rightarrow> bool \<times> bool" where
  "scan_clause [] assignment = (True, False)"
| "scan_clause (literal # rest) assignment =
     (let var = \<bar>literal\<bar> in
      case map_of assignment var of
        None \<Rightarrow> (False, True)
      | Some b \<Rightarrow>
          if (literal > 0 \<and> b) \<or> (literal < 0 \<and> \<not> b) then (False, False)
          else scan_clause rest assignment)"

fun has_conflict :: "clause list \<Rightarrow> assignment \<Rightarrow> bool" where
  "has_conflict [] assignment = False"
| "has_conflict (clause # rest) assignment =
     (let (all_false, has_unassigned) = scan_clause clause assignment in
      if all_false \<and> \<not> has_unassigned then True else has_conflict rest assignment)"

fun all_satisfied :: "clause list \<Rightarrow> assignment \<Rightarrow> bool" where
  "all_satisfied [] assignment = True"
| "all_satisfied (clause # rest) assignment =
     (if \<not> is_satisfied clause assignment then False else all_satisfied rest assignment)"

text \<open>
  A unit clause that is found is a single literal of an unassigned variable, so the
  \<open>unit_clause[0]\<close> of the caller is that literal.
\<close>

lemma unassigned_literals_eq:
  "unassigned_literals c a acc = acc @ filter (\<lambda>l. map_of a \<bar>l\<bar> = None) c"
  by (induction c arbitrary: acc) (auto simp: Let_def)

lemma find_unit_clause_Some:
  "find_unit_clause cls a = Some uc \<Longrightarrow>
     \<exists>l. uc = [l] \<and> \<bar>l\<bar> \<in> variables_of cls \<and> map_of a \<bar>l\<bar> = None"
proof (induction cls)
  case Nil
  then show ?case by simp
next
  case (Cons c cls)
  show ?case
  proof (cases "\<not> is_satisfied c a \<and> length (filter (\<lambda>l. map_of a \<bar>l\<bar> = None) c) = 1")
    case True
    with Cons.prems have uc: "uc = filter (\<lambda>l. map_of a \<bar>l\<bar> = None) c"
      by (simp add: unassigned_literals_eq Let_def)
    from True obtain l where l: "filter (\<lambda>l. map_of a \<bar>l\<bar> = None) c = [l]"
      by (auto simp: length_Suc_conv)
    then have "l \<in> set (filter (\<lambda>l. map_of a \<bar>l\<bar> = None) c)" by simp
    then have "l \<in> set c" "map_of a \<bar>l\<bar> = None" by auto
    then show ?thesis using uc l by (auto simp: variables_of_def)
  next
    case False
    with Cons.prems have "find_unit_clause cls a = Some uc"
      by (auto simp: unassigned_literals_eq Let_def split: if_splits)
    from Cons.IH [OF this] show ?thesis by (auto simp: variables_of_def)
  qed
qed

text \<open>
  The \<open>while True\<close> loop of \<open>_dpll\<close>. The boolean is false when the loop left
  \<open>_dpll\<close> with \<open>return False\<close> (a conflict), true when it ended with \<open>break\<close>.
\<close>

function unit_propagation ::
  "clause list \<Rightarrow> assignment \<Rightarrow> dpll_stats \<Rightarrow> bool \<times> assignment \<times> dpll_stats" where
  "unit_propagation clauses assignment stats =
     (case find_unit_clause clauses assignment of
        None \<Rightarrow> (True, assignment, stats)
      | Some unit_clause \<Rightarrow>
          (let literal = hd unit_clause; var = \<bar>literal\<bar>; val = (literal > 0) in
           if map_of assignment var \<noteq> None \<and> map_of assignment var \<noteq> Some val then
             (False, assignment, stats\<lparr>d_conflicts := d_conflicts stats + 1\<rparr>)
           else
             unit_propagation clauses (AList.update var val assignment)
               (stats\<lparr>d_unit_propagations := d_unit_propagations stats + 1\<rparr>)))"
  by pat_completeness auto
termination
proof (relation "measure (\<lambda>(cls, a, st). remaining (variables_of cls) a)", goal_cases)
  case 1
  then show ?case by simp
next
  case (2 cls a st uc l var val)
  from find_unit_clause_Some [OF 2(1)] obtain l' where
    "uc = [l']" "\<bar>l'\<bar> \<in> variables_of cls" "map_of a \<bar>l'\<bar> = None" by auto
  with 2 show ?case
    using remaining_update [of "variables_of cls" "variables_of cls" "\<bar>l'\<bar>" a "0 < l'"]
    by simp
qed


lemmas [simp del] = unit_propagation.simps

lemma unit_propagation_None:
  "find_unit_clause cls a = None \<Longrightarrow> unit_propagation cls a st = (True, a, st)"
  by (simp add: unit_propagation.simps)

lemma unit_propagation_Some:
  "find_unit_clause cls a = Some uc \<Longrightarrow>
     unit_propagation cls a st =
       (if map_of a \<bar>hd uc\<bar> \<noteq> None \<and> map_of a \<bar>hd uc\<bar> \<noteq> Some (0 < hd uc)
        then (False, a, st\<lparr>d_conflicts := d_conflicts st + 1\<rparr>)
        else unit_propagation cls (AList.update \<bar>hd uc\<bar> (0 < hd uc) a)
               (st\<lparr>d_unit_propagations := d_unit_propagations st + 1\<rparr>))"
  by (simp add: unit_propagation.simps [of cls a st] Let_def)

lemma unit_propagation_remaining:
  "unit_propagation cls a st = (ok, a1, st1) \<Longrightarrow>
     remaining (variables_of cls) a1 \<le> remaining (variables_of cls) a"
proof (induction cls a st rule: unit_propagation.induct)
  case (1 cls a st)
  show ?case
  proof (cases "find_unit_clause cls a")
    case None
    with "1.prems" show ?thesis by (simp add: unit_propagation_None)
  next
    case (Some uc)
    let ?l = "hd uc"
    show ?thesis
    proof (cases "map_of a \<bar>?l\<bar> \<noteq> None \<and> map_of a \<bar>?l\<bar> \<noteq> Some (0 < ?l)")
      case True
      with "1.prems" Some show ?thesis by (simp add: unit_propagation_Some)
    next
      case False
      have "unit_propagation cls a st =
          unit_propagation cls (AList.update \<bar>?l\<bar> (0 < ?l) a)
            (st\<lparr>d_unit_propagations := d_unit_propagations st + 1\<rparr>)"
        by (subst unit_propagation_Some [OF Some]) (rule if_not_P [OF False])
      with "1.prems" have
        "unit_propagation cls (AList.update \<bar>?l\<bar> (0 < ?l) a)
           (st\<lparr>d_unit_propagations := d_unit_propagations st + 1\<rparr>) = (ok, a1, st1)"
        by simp
      from "1.IH" [OF Some refl refl refl False this]
      have "remaining (variables_of cls) a1
          \<le> remaining (variables_of cls) (AList.update \<bar>?l\<bar> (0 < ?l) a)" .
      also have "\<dots> \<le> remaining (variables_of cls) a"
        by (rule remaining_update_le) simp
      finally show ?thesis .
    qed
  qed
qed

lemma set_add_set [simp]: "set (set_add x xs) = insert x (set xs)"
  by (auto simp: set_add_def)

lemma next_iter_mem: "xs \<noteq> [] \<Longrightarrow> next_iter pick xs \<in> set xs"
  by (auto simp: next_iter_def Let_def)

lemma collect_literals_subset:
  "collect_literals c a (pos, neg) = (pos', neg') \<Longrightarrow>
     set pos' \<union> set neg' \<subseteq> set pos \<union> set neg \<union> {v \<in> abs ` set c. map_of a v = None}"
  by (induction c a "(pos, neg)" arbitrary: pos neg rule: collect_literals.induct)
     (auto simp: Let_def split: if_splits)

lemma collect_clauses_subset:
  "collect_clauses cls a (pos, neg) = (pos', neg') \<Longrightarrow>
     set pos' \<union> set neg' \<subseteq> set pos \<union> set neg \<union> {v \<in> variables_of cls. map_of a v = None}"
proof (induction cls arbitrary: pos neg)
  case Nil
  then show ?case by auto
next
  case (Cons c cls)
  have sub: "variables_of cls \<subseteq> variables_of (c # cls)" "abs ` set c \<subseteq> variables_of (c # cls)"
    by (auto simp: variables_of_def)
  show ?case
  proof (cases "is_satisfied c a")
    case True
    with Cons.prems have "collect_clauses cls a (pos, neg) = (pos', neg')" by simp
    from Cons.IH [OF this] sub show ?thesis by auto
  next
    case False
    obtain p1 n1 where c1: "collect_literals c a (pos, neg) = (p1, n1)"
      by (cases "collect_literals c a (pos, neg)")
    with False Cons.prems have "collect_clauses cls a (p1, n1) = (pos', neg')" by simp
    from Cons.IH [OF this] collect_literals_subset [OF c1] sub show ?thesis by blast
  qed
qed

lemma find_pure_literal_Some:
  assumes "find_pure_literal pick cls a = Some p"
  shows "\<bar>p\<bar> \<in> variables_of cls \<and> map_of a \<bar>p\<bar> = None"
proof -
  obtain pos neg where c: "collect_clauses cls a ([], []) = (pos, neg)"
    by (cases "collect_clauses cls a ([], [])")
  from collect_clauses_subset [OF c]
  have sub: "set pos \<union> set neg \<subseteq> {v \<in> variables_of cls. map_of a v = None}" by simp
  let ?pp = "filter (\<lambda>v. v \<notin> set neg) pos"
  let ?pn = "filter (\<lambda>v. v \<notin> set pos) neg"
  show ?thesis
  proof (cases "?pp \<noteq> []")
    case True
    with assms c have p: "p = next_iter pick ?pp"
      by (simp add: find_pure_literal_def Let_def)
    from next_iter_mem [OF True, of pick] have "next_iter pick ?pp \<in> set pos" by auto
    with sub have m: "next_iter pick ?pp \<in> variables_of cls"
      "map_of a (next_iter pick ?pp) = None" by auto
    then have "0 \<le> next_iter pick ?pp" by (auto simp: variables_of_def)
    with m p show ?thesis by simp
  next
    case False
    with assms c have ne: "?pn \<noteq> []" and p: "p = - next_iter pick ?pn"
      by (auto simp: find_pure_literal_def Let_def split: if_splits)
    from next_iter_mem [OF ne, of pick] have "next_iter pick ?pn \<in> set neg" by auto
    with sub have m: "next_iter pick ?pn \<in> variables_of cls"
      "map_of a (next_iter pick ?pn) = None" by auto
    then have "0 \<le> next_iter pick ?pn" by (auto simp: variables_of_def)
    with m p show ?thesis by simp
  qed
qed

lemma count_literals_keys:
  "fst ` set (count_literals c a vc) \<subseteq> fst ` set vc \<union> {v \<in> abs ` set c. map_of a v = None}"
proof (induction c arbitrary: vc)
  case Nil
  then show ?case by simp
next
  case (Cons l c)
  show ?case
  proof (cases "map_of a \<bar>l\<bar> = None")
    case True
    define vc' where
      "vc' = AList.update \<bar>l\<bar> ((case map_of vc \<bar>l\<bar> of None \<Rightarrow> 0 | Some c \<Rightarrow> c) + 1) vc"
    have step: "count_literals (l # c) a vc = count_literals c a vc'"
      using True by (simp add: Let_def vc'_def)
    have keys: "fst ` set vc' = insert \<bar>l\<bar> (fst ` set vc)"
      by (simp add: vc'_def dom_update)
    have "fst ` set (count_literals c a vc')
        \<subseteq> fst ` set vc' \<union> {v \<in> abs ` set c. map_of a v = None}" by (rule Cons.IH)
    also have "\<dots> \<subseteq> fst ` set vc \<union> {v \<in> abs ` set (l # c). map_of a v = None}"
      unfolding keys using True by auto
    finally show ?thesis unfolding step .
  next
    case False
    then have step: "count_literals (l # c) a vc = count_literals c a vc"
      by (auto simp: Let_def)
    have "fst ` set (count_literals c a vc)
        \<subseteq> fst ` set vc \<union> {v \<in> abs ` set c. map_of a v = None}" by (rule Cons.IH)
    also have "\<dots> \<subseteq> fst ` set vc \<union> {v \<in> abs ` set (l # c). map_of a v = None}" by auto
    finally show ?thesis unfolding step .
  qed
qed

lemma count_clauses_keys:
  "fst ` set (count_clauses cls a vc)
     \<subseteq> fst ` set vc \<union> {v \<in> variables_of cls. map_of a v = None}"
proof (induction cls arbitrary: vc)
  case Nil
  then show ?case by simp
next
  case (Cons c cls)
  have sub1: "{v \<in> variables_of cls. map_of a v = None}
      \<subseteq> {v \<in> variables_of (c # cls). map_of a v = None}"
    by (auto simp: variables_of_def)
  have sub2: "{v \<in> abs ` set c. map_of a v = None}
      \<subseteq> {v \<in> variables_of (c # cls). map_of a v = None}"
    by (auto simp: variables_of_def)
  show ?case
  proof (cases "is_satisfied c a")
    case True
    then have step: "count_clauses (c # cls) a vc = count_clauses cls a vc" by simp
    have "fst ` set (count_clauses cls a vc)
        \<subseteq> fst ` set vc \<union> {v \<in> variables_of cls. map_of a v = None}" by (rule Cons.IH)
    also have "\<dots> \<subseteq> fst ` set vc \<union> {v \<in> variables_of (c # cls). map_of a v = None}"
      using sub1 by blast
    finally show ?thesis unfolding step .
  next
    case False
    then have step: "count_clauses (c # cls) a vc = count_clauses cls a (count_literals c a vc)"
      by simp
    define B where "B = fst ` set vc"
    define C where "C = {v \<in> abs ` set c. map_of a v = None}"
    define D where "D = {v \<in> variables_of cls. map_of a v = None}"
    define E where "E = {v \<in> variables_of (c # cls). map_of a v = None}"
    define X where "X = fst ` set (count_literals c a vc)"
    define Y where "Y = fst ` set (count_clauses cls a (count_literals c a vc))"
    have 1: "Y \<subseteq> X \<union> D" unfolding Y_def X_def D_def by (rule Cons.IH)
    have 2: "X \<subseteq> B \<union> C" unfolding X_def B_def C_def by (rule count_literals_keys)
    have 3: "D \<subseteq> E" unfolding D_def E_def by (rule sub1)
    have 4: "C \<subseteq> E" unfolding C_def E_def by (rule sub2)
    from 1 2 3 4 have "Y \<subseteq> B \<union> E" by blast
    then show ?thesis unfolding step Y_def B_def E_def .
  qed
qed

lemma max_item_mem: "max_item best xs \<in> set (best # xs)"
  by (induction xs arbitrary: best) (auto split: if_splits)

lemma choose_variable_Some:
  assumes "choose_variable cls a = Some var"
  shows "var \<in> variables_of cls \<and> map_of a var = None"
proof -
  from assms obtain x xs where vc: "count_clauses cls a [] = x # xs"
    and var: "var = fst (max_item x xs)"
    by (auto simp: choose_variable_def split: list.splits)
  from max_item_mem [of x xs] vc have "var \<in> fst ` set (count_clauses cls a [])"
    unfolding var by (metis imageI)
  with count_clauses_keys [of cls a "[]"] show ?thesis by auto
qed

text \<open>
  \<open>_dpll\<close>. The dictionary is mutated in place, so the model returns it with the
  result. The pure-literal step recurses on the same dictionary; the two branch calls
  receive \<open>assignment.copy()\<close>, so what they assign is not written to the caller's
  dictionary and the second component of their result is dropped.
\<close>

function dpll ::
  "(int list \<Rightarrow> int) \<Rightarrow> clause list \<Rightarrow> assignment \<Rightarrow> dpll_stats
    \<Rightarrow> bool \<times> assignment \<times> dpll_stats" where
  "dpll pick clauses assignment stats =
     (let (propagated, assignment1, stats1) = unit_propagation clauses assignment stats in
      if \<not> propagated then (False, assignment1, stats1)
      else if has_conflict clauses assignment1 then
        (False, assignment1, stats1\<lparr>d_conflicts := d_conflicts stats1 + 1\<rparr>)
      else if all_satisfied clauses assignment1 then (True, assignment1, stats1)
      else
        (case find_pure_literal pick clauses assignment1 of
           Some pure_literal \<Rightarrow>
             dpll pick clauses
               (AList.update \<bar>pure_literal\<bar> (pure_literal > 0) assignment1) stats1
         | None \<Rightarrow>
             (case choose_variable clauses assignment1 of
                None \<Rightarrow> (True, assignment1, stats1)
              | Some var \<Rightarrow>
                  (let stats2 = stats1\<lparr>d_decisions := d_decisions stats1 + 1\<rparr>;
                       assignment2 = AList.update var True assignment1;
                       (result_true, copy_true, stats3) = dpll pick clauses assignment2 stats2
                   in if result_true then (True, assignment2, stats3)
                      else
                        (let stats4 = stats3\<lparr>d_backtracks := d_backtracks stats3 + 1\<rparr>;
                             assignment3 = AList.update var False assignment2;
                             (result_false, copy_false, stats5) =
                                dpll pick clauses assignment3 stats4
                         in if result_false then (True, assignment3, stats5)
                            else (False, AList.delete var assignment3, stats5))))))"
  by pat_completeness auto

termination
proof (relation "measure (\<lambda>(pick, cls, a, st). remaining (variables_of cls) a)", goal_cases)
  case 1
  then show ?case by simp
next
  case (2 pick cls a st x ok y a1 st1 var st2 a2)
  then have up: "unit_propagation cls a st = (ok, a1, st1)" by simp
  from choose_variable_Some [OF 2(8)]
  have "remaining (variables_of cls) (AList.update var True a1)
      < remaining (variables_of cls) a1"
    by (intro remaining_update) auto
  with unit_propagation_remaining [OF up] 2 show ?case by simp
next
  case (3 pick cls a st x ok y a1 st1 var st2 a2 r rt yb ct st3 st4 a3)
  then have up: "unit_propagation cls a st = (ok, a1, st1)" by simp
  from choose_variable_Some [OF 3(8)]
  have "remaining (variables_of cls) (AList.update var True a1)
      < remaining (variables_of cls) a1"
    by (intro remaining_update) auto
  moreover have "remaining (variables_of cls) (AList.update var False (AList.update var True a1))
      \<le> remaining (variables_of cls) (AList.update var True a1)"
    by (rule remaining_update_le) simp
  ultimately show ?case using unit_propagation_remaining [OF up] 3 by simp
next
  case (4 pick cls a st x ok y a1 st1 p)
  then have up: "unit_propagation cls a st = (ok, a1, st1)" by simp
  from find_pure_literal_Some [OF 4(7)]
  have "remaining (variables_of cls) (AList.update \<bar>p\<bar> (0 < p) a1)
      < remaining (variables_of cls) a1"
    by (intro remaining_update) auto
  with unit_propagation_remaining [OF up] 4 show ?case by simp
qed

lemmas [simp del] = dpll.simps

text \<open>\<open>SimpleDPLLSolver.solve\<close>; only \<open>cnf.clauses\<close> is read.\<close>

definition solve ::
  "(int list \<Rightarrow> int) \<Rightarrow> clause list \<Rightarrow> bool \<times> assignment option \<times> dpll_stats" where
  "solve pick clauses =
     (let statistics = \<lparr>d_decisions = 0, d_unit_propagations = 0, d_conflicts = 0,
                         d_backtracks = 0\<rparr>;
          (result, assignment, statistics') = dpll pick clauses [] statistics
      in (result, if result then Some assignment else None, statistics'))"


section \<open>The top level of the goal-oriented solver\<close>





section \<open>Soundness of the DPLL solver's result\<close>

text \<open>
  C1. On the formula \<open>[[1, 2], [-1, 3], [-2, -3]]\<close> the DPLL solver branches on
  variable 1, and the recursive call, which runs on a copy of the dictionary, finds the
  rest of the solution there. \<open>solve\<close> returns the caller's dictionary, \<open>{1: True}\<close>,
  under which the second and the third clause are not satisfied: the returned
  assignment does not satisfy the formula.
\<close>

theorem dpll_returns_partial_assignment:
  "solve pick [[1, 2], [-1, 3], [-2, -3]] =
     (True, Some [(1, True)],
      \<lparr>d_decisions = 1, d_unit_propagations = 2, d_conflicts = 0, d_backtracks = 0\<rparr>)
   \<and> is_clause_satisfied [-1, 3] [(1, True)] = False
   \<and> is_clause_satisfied [-2, -3] [(1, True)] = False"
  by code_simp

section \<open>The keys of the completed assignment\<close>









section \<open>The unsatisfied-index invariant\<close>

text \<open>
  For a recursive definition the function package derives the call relation of the
  functions: \<open>find_solution_recursive_literal_loop_rel x y\<close> holds exactly when
  evaluating the call with the arguments \<open>y\<close> makes the recursive call with the
  arguments \<open>x\<close> (the left summand is a call of \<open>find_solution_recursive\<close>, the
  right one an entry of its literal loop). A call is reachable from the top-level entry
  when the reflexive transitive closure of that relation links it to the initial call.
  The call relation of the goal-oriented search is used in the same way.
\<close>

definition backward_call ::
  "clause list \<Rightarrow> backward_stats
    \<Rightarrow> (assignment \<times> clause list \<times> nat list \<times> backward_stats
        + literal list \<times> assignment \<times> clause list \<times> nat list \<times> backward_stats) \<Rightarrow> bool" where
  "backward_call clauses stats0 x \<longleftrightarrow>
     find_solution_recursive_literal_loop_rel\<^sup>*\<^sup>* x
       (Inl ([], clauses, [0..<length clauses], stats0))"

definition goal_call ::
  "int \<Rightarrow> clause list \<Rightarrow> goal_stats
    \<Rightarrow> ((assignment \<times> assignment_types \<times> clause list \<times> nat list \<times> goal_stats \<times> int
         + int list \<times> assignment \<times> assignment_types \<times> clause list \<times> nat list \<times> goal_stats
             \<times> int \<times> int)
        + (int \<times> assignment \<times> assignment_types \<times> clause list \<times> nat list \<times> goal_stats
             \<times> int \<times> int)
        + (nat \<times> clause list \<times> assignment \<times> assignment_types \<times> nat list \<times> goal_stats \<times> int)
        + (literal list \<times> clause list \<times> assignment \<times> assignment_types \<times> nat list
             \<times> goal_stats \<times> int)) \<Rightarrow> bool" where
  "goal_call num_variables clauses stats0 x \<longleftrightarrow>
     recursive_solve_with_heuristic_heuristic_loop_apply_heuristic_for_variable_try_branch_on_target_clause_branch_loop_rel\<^sup>*\<^sup>* x
       (Inl (Inl ([], [], clauses, [0..<length clauses], stats0, num_variables)))"

text \<open>The invariant: every listed index is a clause that the assignment does not satisfy.\<close>

lemma is_clause_satisfied_conv:
  "is_clause_satisfied c A \<longleftrightarrow>
      (\<exists>l \<in> set c. \<exists>b. map_of A \<bar>l\<bar> = Some b \<and> ((l > 0 \<and> b) \<or> (l < 0 \<and> \<not> b)))"
  by (induction c) (auto simp: Let_def split: option.splits)

lemma get_unsatisfied_clause_indices_eq:
  "get_unsatisfied_clause_indices cls a idxs =
     (if \<forall>i \<in> set idxs. i < length cls
      then Inr (filter (\<lambda>i. \<not> is_clause_satisfied (cls ! i) a) idxs)
      else Inl IndexError)"
  by (induction idxs) (auto simp: Let_def)

definition unsatisfied_inv :: "clause list \<Rightarrow> assignment \<Rightarrow> nat list \<Rightarrow> bool" where
  "unsatisfied_inv cls a unsat \<longleftrightarrow>
     (\<forall>i \<in> set unsat. i < length cls \<and> \<not> is_clause_satisfied (cls ! i) a)"

lemma unsatisfied_inv_top: "unsatisfied_inv cls [] [0..<length cls]"
  by (simp add: unsatisfied_inv_def is_clause_satisfied_conv)

lemma unsatisfied_inv_loop:
  "unsatisfied_inv cls a u \<Longrightarrow> unsatisfied_loop cls a' [] u = Inr u' \<Longrightarrow>
     unsatisfied_inv cls a' u'"
  by (auto simp: unsatisfied_inv_def unsatisfied_loop_eq split: if_splits)

lemma unsatisfied_inv_get:
  "unsatisfied_inv cls a u \<Longrightarrow> get_unsatisfied_clause_indices cls a' u = Inr u' \<Longrightarrow>
     unsatisfied_inv cls a' u'"
  by (auto simp: unsatisfied_inv_def get_unsatisfied_clause_indices_eq split: if_splits)

fun backward_inv ::
  "clause list
    \<Rightarrow> (assignment \<times> clause list \<times> nat list \<times> backward_stats
        + literal list \<times> assignment \<times> clause list \<times> nat list \<times> backward_stats) \<Rightarrow> bool" where
  "backward_inv cls (Inl (a, cls', u, st)) \<longleftrightarrow> cls' = cls \<and> unsatisfied_inv cls a u"
| "backward_inv cls (Inr (ls, a, cls', u, st)) \<longleftrightarrow>
     cls' = cls \<and> unsatisfied_inv cls a u
     \<and> (\<exists>i u' pre. u = i # u' \<and> cls ! i = pre @ ls)"

lemma backward_inv_step:
  assumes "find_solution_recursive_literal_loop_rel x y" "backward_inv cls y"
  shows "backward_inv cls x"
  using assms
proof (cases rule: find_solution_recursive_literal_loop_rel.cases)
  case (1 a cls' u st st1 i rest)
  with assms(2) show ?thesis by auto
next
  case (2 l rest a cls' u st)
  with assms(2) show ?thesis by auto
next
  case (3 l rest a cls' u st)
  with assms(2) show ?thesis by auto
next
  case (4 l rest a cls' u st var val a' u')
  with assms(2) show ?thesis by (auto intro: unsatisfied_inv_loop)
next
  case (5 l rest a cls' u st)
  with assms(2) show ?thesis by auto
qed

lemma backward_call_inv: "backward_call cls st0 x \<Longrightarrow> backward_inv cls x"
  unfolding backward_call_def
proof (induction rule: converse_rtranclp_induct)
  case base
  show ?case by (simp add: unsatisfied_inv_top)
next
  case (step y z)
  then show ?case by (auto intro: backward_inv_step)
qed


fun goal_inv ::
  "clause list
    \<Rightarrow> ((assignment \<times> assignment_types \<times> clause list \<times> nat list \<times> goal_stats \<times> int
         + int list \<times> assignment \<times> assignment_types \<times> clause list \<times> nat list \<times> goal_stats
             \<times> int \<times> int)
        + (int \<times> assignment \<times> assignment_types \<times> clause list \<times> nat list \<times> goal_stats
             \<times> int \<times> int)
        + (nat \<times> clause list \<times> assignment \<times> assignment_types \<times> nat list \<times> goal_stats \<times> int)
        + (literal list \<times> clause list \<times> assignment \<times> assignment_types \<times> nat list
             \<times> goal_stats \<times> int)) \<Rightarrow> bool" where
  "goal_inv cls (Inl (Inl (a, t, cls', u, st, n))) \<longleftrightarrow> cls' = cls \<and> unsatisfied_inv cls a u"
| "goal_inv cls (Inl (Inr (vs, a, t, cls', u, st, n, h))) \<longleftrightarrow>
     cls' = cls \<and> unsatisfied_inv cls a u"
| "goal_inv cls (Inr (Inl (v, a, t, cls', u, st, n, h))) \<longleftrightarrow>
     cls' = cls \<and> unsatisfied_inv cls a u"
| "goal_inv cls (Inr (Inr (Inl (i, cls', a, t, u, st, n)))) \<longleftrightarrow>
     cls' = cls \<and> unsatisfied_inv cls a u"
| "goal_inv cls (Inr (Inr (Inr (ls, cls', a, t, u, st, n)))) \<longleftrightarrow>
     cls' = cls \<and> unsatisfied_inv cls a u"

lemma unsatisfied_inv_evaluate:
  "unsatisfied_inv cls a u \<Longrightarrow>
     evaluate_variable_assignment v b a cls u = Inr (c, k, u') \<Longrightarrow>
     unsatisfied_inv cls (AList.update v b a) u'"
  by (auto simp: evaluate_variable_assignment_def Let_def split: sum.splits
      intro: unsatisfied_inv_get)

lemma goal_inv_step:
  assumes "recursive_solve_with_heuristic_heuristic_loop_apply_heuristic_for_variable_try_branch_on_target_clause_branch_loop_rel x y"
    and "goal_inv cls y"
  shows "goal_inv cls x"
  using assms
proof (cases rule: recursive_solve_with_heuristic_heuristic_loop_apply_heuristic_for_variable_try_branch_on_target_clause_branch_loop_rel.cases)
  case (5 v a t cls' u st n h b tc y tn rt ba fc yb fn rf x2 vf valf s1 a' t' u')
  from 5 have vf: "vf = v" using make_heuristic_decision_variable by metis
  from 5 assms(2) have inv: "cls' = cls" "unsatisfied_inv cls a u" by auto
  from 5 have et: "evaluate_variable_assignment v True a cls' u = Inr (tc, tn, rt)"
    and ef: "evaluate_variable_assignment v False a cls' u = Inr (fc, fn, rf)" by auto
  have "unsatisfied_inv cls (AList.update v valf a) (if valf then rt else rf)"
    using unsatisfied_inv_evaluate [OF inv(2)] et ef inv(1) by (cases valf) auto
  with 5 vf inv show ?thesis by simp
next
  case (9 l rest cls' a t u st n var a' t' u')
  with assms(2) show ?thesis by (auto intro: unsatisfied_inv_get)
qed (use assms(2) in auto)

lemma goal_call_inv: "goal_call n cls st0 x \<Longrightarrow> goal_inv cls x"
  unfolding goal_call_def
proof (induction rule: converse_rtranclp_induct)
  case base
  show ?case by (simp add: unsatisfied_inv_top)
next
  case (step y z)
  then show ?case by (auto intro: goal_inv_step)
qed

text \<open>
  C10. In every call of the backward search that is reachable from the top-level
  entry, and in every such call of the goal-oriented search, each index in
  \<open>unsatisfied_clause_indices\<close> is the index of a clause that \<open>current_assignments\<close>
  does not satisfy. Consequently, when the literal loop of the backward solver is
  entered at a literal \<open>l\<close> of a formula whose literals are nonzero, the variable of
  \<open>l\<close> is not assigned the value that makes \<open>l\<close> true: the branch that skips a
  consistently assigned literal is never taken.
\<close>

theorem unsatisfied_indices_invariant:
  "(backward_call cls st0 (Inl (a, cls', unsat, st)) \<longrightarrow>
      (\<forall>i \<in> set unsat. i < length cls \<and> \<not> is_clause_satisfied (cls ! i) a))
   \<and> ((\<forall>c \<in> set cls. 0 \<notin> set c)
        \<and> backward_call cls st0 (Inr (l # rest, a, cls', unsat, st)) \<longrightarrow>
      map_of a \<bar>l\<bar> \<noteq> Some (0 < l))
   \<and> (goal_call n cls gst0 (Inl (Inl (a, t, cls', unsat, gst, n'))) \<longrightarrow>
      (\<forall>i \<in> set unsat. i < length cls \<and> \<not> is_clause_satisfied (cls ! i) a))"
proof (intro conjI impI)
  assume "backward_call cls st0 (Inl (a, cls', unsat, st))"
  from backward_call_inv [OF this]
  show "\<forall>i \<in> set unsat. i < length cls \<and> \<not> is_clause_satisfied (cls ! i) a"
    by (simp add: unsatisfied_inv_def)
next
  assume a: "(\<forall>c \<in> set cls. 0 \<notin> set c)
        \<and> backward_call cls st0 (Inr (l # rest, a, cls', unsat, st))"
  from backward_call_inv [of cls st0 "Inr (l # rest, a, cls', unsat, st)"] a
  obtain i u' pre where u: "unsat = i # u'" and c: "cls ! i = pre @ l # rest"
    and inv: "unsatisfied_inv cls a unsat" by auto
  from u inv have i: "i < length cls" and ns: "\<not> is_clause_satisfied (cls ! i) a"
    by (auto simp: unsatisfied_inv_def)
  from i have "cls ! i \<in> set cls" by simp
  with a c have l0: "l \<noteq> 0" by (metis in_set_conv_decomp)
  from c have "l \<in> set (cls ! i)" by simp
  with ns have "\<not> (\<exists>b. map_of a \<bar>l\<bar> = Some b \<and> ((l > 0 \<and> b) \<or> (l < 0 \<and> \<not> b)))"
    unfolding is_clause_satisfied_conv by blast
  with l0 show "map_of a \<bar>l\<bar> \<noteq> Some (0 < l)" by (cases "0 < l") auto
next
  assume "goal_call n cls gst0 (Inl (Inl (a, t, cls', unsat, gst, n')))"
  from goal_call_inv [OF this]
  show "\<forall>i \<in> set unsat. i < length cls \<and> \<not> is_clause_satisfied (cls ! i) a"
    by (simp add: unsatisfied_inv_def)
qed


text \<open>The steps of the call relations that the examples below follow.\<close>

lemma backward_call_top: "backward_call cls st0 (Inl ([], cls, [0..<length cls], st0))"
  by (simp add: backward_call_def)

lemma backward_call_target:
  assumes "backward_call cls st0 (Inl (a, cls, i # u, st))" "i < length cls"
  shows "backward_call cls st0
           (Inr (cls ! i, a, cls, i # u, st\<lparr>b_recursive_calls := b_recursive_calls st + 1\<rparr>))"
proof -
  have "find_solution_recursive_literal_loop_rel
      (Inr (cls ! i, a, cls, i # u, st\<lparr>b_recursive_calls := b_recursive_calls st + 1\<rparr>))
      (Inl (a, cls, i # u, st))"
    by (rule find_solution_recursive_literal_loop_rel.intros(1) [OF refl refl assms(2)])
  from this assms(1) show ?thesis
    unfolding backward_call_def by (rule converse_rtranclp_into_rtranclp)
qed

lemma backward_call_assign:
  assumes "backward_call cls st0 (Inr (l # rest, a, cls, u, st))" "map_of a \<bar>l\<bar> = None"
    "unsatisfied_loop cls (AList.update \<bar>l\<bar> (0 < l) a) [] u = Inr u'"
  shows "backward_call cls st0 (Inl (AList.update \<bar>l\<bar> (0 < l) a, cls, u', st))"
proof -
  have "find_solution_recursive_literal_loop_rel
      (Inl (AList.update \<bar>l\<bar> (0 < l) a, cls, u', st)) (Inr (l # rest, a, cls, u, st))"
    by (rule find_solution_recursive_literal_loop_rel.intros(4) [OF refl refl _ refl assms(3)])
       (simp add: assms(2))
  from this assms(1) show ?thesis
    unfolding backward_call_def by (rule converse_rtranclp_into_rtranclp)
qed

lemma goal_call_top: "goal_call n cls st0 (Inl (Inl ([], [], cls, [0..<length cls], st0, n)))"
  by (simp add: goal_call_def)

lemma goal_call_loop:
  assumes "goal_call n cls st0 (Inl (Inl (a, t, cls, u, st, n)))" "u \<noteq> []"
  shows "goal_call n cls st0
           (Inl (Inr ([1..n], a, t, cls, u,
                      st\<lparr>g_recursive_calls := g_recursive_calls st + 1\<rparr>, n, 1)))"
proof -
  have "recursive_solve_with_heuristic_heuristic_loop_apply_heuristic_for_variable_try_branch_on_target_clause_branch_loop_rel
      (Inl (Inr ([1..n], a, t, cls, u,
                 st\<lparr>g_recursive_calls := g_recursive_calls st + 1\<rparr>, n, 1)))
      (Inl (Inl (a, t, cls, u, st, n)))"
    by (rule recursive_solve_with_heuristic_heuristic_loop_apply_heuristic_for_variable_try_branch_on_target_clause_branch_loop_rel.intros(1)
          [OF refl assms(2) refl])
  from this assms(1) show ?thesis
    unfolding goal_call_def by (rule converse_rtranclp_into_rtranclp)
qed

lemma goal_call_variable:
  assumes "goal_call n cls st0 (Inl (Inr (v # rest, a, t, cls, u, st, n, h)))"
  shows "goal_call n cls st0 (Inr (Inl (v, a, t, cls, u, st, n, h)))"
proof -
  have "recursive_solve_with_heuristic_heuristic_loop_apply_heuristic_for_variable_try_branch_on_target_clause_branch_loop_rel
      (Inr (Inl (v, a, t, cls, u, st, n, h)))
      (Inl (Inr (v # rest, a, t, cls, u, st, n, h)))"
    by (rule recursive_solve_with_heuristic_heuristic_loop_apply_heuristic_for_variable_try_branch_on_target_clause_branch_loop_rel.intros(3))
  from this assms(1) show ?thesis
    unfolding goal_call_def by (rule converse_rtranclp_into_rtranclp)
qed

lemma goal_call_forced:
  assumes "goal_call n cls st0 (Inr (Inl (v, a, t, cls, u, st, n, h)))"
    "map_of a v = None"
    "evaluate_variable_assignment v True a cls u = Inr (tc, tn, rt)"
    "evaluate_variable_assignment v False a cls u = Inr (fc, fn, rf)"
    "make_heuristic_decision v tc fc tn fn h = Some (v, b)"
  shows "goal_call n cls st0
           (Inl (Inl (AList.update v b a, AList.update v ''Heuristic Set'' t, cls,
                      (if b then rt else rf),
                      st\<lparr>g_heuristic_choices_count := g_heuristic_choices_count st + 1\<rparr>, n)))"
proof -
  have "recursive_solve_with_heuristic_heuristic_loop_apply_heuristic_for_variable_try_branch_on_target_clause_branch_loop_rel
      (Inl (Inl (AList.update v b a, AList.update v ''Heuristic Set'' t, cls,
                 (if b then rt else rf),
                 st\<lparr>g_heuristic_choices_count := g_heuristic_choices_count st + 1\<rparr>, n)))
      (Inr (Inl (v, a, t, cls, u, st, n, h)))"
    by (rule recursive_solve_with_heuristic_heuristic_loop_apply_heuristic_for_variable_try_branch_on_target_clause_branch_loop_rel.intros(5)
          [OF _ assms(3) refl refl assms(4) refl refl assms(5) refl refl refl refl refl])
       (simp add: assms(2))
  from this assms(1) show ?thesis
    unfolding goal_call_def by (rule converse_rtranclp_into_rtranclp)
qed

theorem unsatisfied_indices_invariant_witness:
  "backward_call [[1], [-1, 2]]
      \<lparr>b_test_case_name = ''t'', b_num_variables = 2, b_num_clauses = 2,
        b_recursive_calls = 0, b_backtracks = 0, b_branch_choices_count = 0,
        b_defaulted_variables = [], b_status = None, b_solution = None\<rparr>
      (Inl ([(1, True)], [[1], [-1, 2]], [1],
            \<lparr>b_test_case_name = ''t'', b_num_variables = 2, b_num_clauses = 2,
              b_recursive_calls = 1, b_backtracks = 0, b_branch_choices_count = 0,
              b_defaulted_variables = [], b_status = None, b_solution = None\<rparr>))
   \<and> (1 :: nat) < length [[1], [-1, 2 :: int]]
   \<and> is_clause_satisfied ([[1], [-1, 2]] ! 1) [(1, True)] = False
   \<and> (0 :: int) \<notin> set [1] \<and> (0 :: int) \<notin> set [-1, 2]
   \<and> backward_call [[1], [-1, 2]]
      \<lparr>b_test_case_name = ''t'', b_num_variables = 2, b_num_clauses = 2,
        b_recursive_calls = 0, b_backtracks = 0, b_branch_choices_count = 0,
        b_defaulted_variables = [], b_status = None, b_solution = None\<rparr>
      (Inr ([-1, 2], [(1, True)], [[1], [-1, 2]], [1],
            \<lparr>b_test_case_name = ''t'', b_num_variables = 2, b_num_clauses = 2,
              b_recursive_calls = 2, b_backtracks = 0, b_branch_choices_count = 0,
              b_defaulted_variables = [], b_status = None, b_solution = None\<rparr>))
   \<and> map_of [(1 :: int, True)] \<bar>- 1\<bar> \<noteq> Some (0 < (- 1 :: int))
   \<and> goal_call 2 [[1], [-1, 2]]
      \<lparr>g_recursive_calls = 0, g_backtracks_on_branch = 0, g_heuristic_choices_count = 0,
        g_branch_choices_count = 0, g_defaulted_variables = []\<rparr>
      (Inl (Inl ([(1, True)], [(1, ''Heuristic Set'')], [[1], [-1, 2]], [1],
            \<lparr>g_recursive_calls = 1, g_backtracks_on_branch = 0,
              g_heuristic_choices_count = 1, g_branch_choices_count = 0,
              g_defaulted_variables = []\<rparr>, 2)))"
proof -
  let ?cls = "[[1], [-1, 2 :: int]]"
  let ?b0 = "\<lparr>b_test_case_name = ''t'', b_num_variables = 2, b_num_clauses = 2,
        b_recursive_calls = 0, b_backtracks = 0, b_branch_choices_count = 0,
        b_defaulted_variables = [], b_status = None, b_solution = None\<rparr>"
  let ?b1 = "\<lparr>b_test_case_name = ''t'', b_num_variables = 2, b_num_clauses = 2,
        b_recursive_calls = 1, b_backtracks = 0, b_branch_choices_count = 0,
        b_defaulted_variables = [], b_status = None, b_solution = None\<rparr>"
  let ?b2 = "\<lparr>b_test_case_name = ''t'', b_num_variables = 2, b_num_clauses = 2,
        b_recursive_calls = 2, b_backtracks = 0, b_branch_choices_count = 0,
        b_defaulted_variables = [], b_status = None, b_solution = None\<rparr>"
  let ?g0 = "\<lparr>g_recursive_calls = 0, g_backtracks_on_branch = 0,
        g_heuristic_choices_count = 0, g_branch_choices_count = 0,
        g_defaulted_variables = []\<rparr>"
  let ?g1 = "\<lparr>g_recursive_calls = 1, g_backtracks_on_branch = 0,
        g_heuristic_choices_count = 0, g_branch_choices_count = 0,
        g_defaulted_variables = []\<rparr>"
  let ?g2 = "\<lparr>g_recursive_calls = 1, g_backtracks_on_branch = 0,
        g_heuristic_choices_count = 1, g_branch_choices_count = 0,
        g_defaulted_variables = []\<rparr>"
  have idx: "[0..<length ?cls] = [0, 1]" by code_simp
  have c0: "backward_call ?cls ?b0 (Inl ([], ?cls, [0, 1], ?b0))"
    using backward_call_top [of ?cls ?b0] by (simp only: idx)
  have c1: "backward_call ?cls ?b0 (Inr ([1], [], ?cls, [0, 1], ?b1))"
    using backward_call_target [OF c0] by simp
  have "unsatisfied_loop ?cls (AList.update \<bar>1\<bar> (0 < (1 :: int)) []) [] [0, 1] = Inr [1]"
    by code_simp
  from backward_call_assign [OF c1 _ this]
  have c2: "backward_call ?cls ?b0 (Inl ([(1, True)], ?cls, [1], ?b1))" by simp
  have c3: "backward_call ?cls ?b0 (Inr ([-1, 2], [(1, True)], ?cls, [1], ?b2))"
    using backward_call_target [OF c2] by (simp add: eval_nat_numeral)
  have g0: "goal_call 2 ?cls ?g0 (Inl (Inl ([], [], ?cls, [0, 1], ?g0, 2)))"
    using goal_call_top [of 2 ?cls ?g0] by (simp only: idx)
  have up: "[1..2] = [1, 2 :: int]" by code_simp
  have g1: "goal_call 2 ?cls ?g0 (Inl (Inr ([1, 2], [], [], ?cls, [0, 1], ?g1, 2, 1)))"
    using goal_call_loop [OF g0] by (simp add: up)
  note g2 = goal_call_variable [OF g1]
  have et: "evaluate_variable_assignment 1 True [] ?cls [0, 1] = Inr (False, 1, [1])"
    by code_simp
  have ef: "evaluate_variable_assignment 1 False [] ?cls [0, 1] = Inr (True, 1, [0])"
    by code_simp
  have md: "make_heuristic_decision 1 False True 1 1 1 = Some (1, True)"
    by code_simp
  from goal_call_forced [OF g2 _ et ef md]
  have g3: "goal_call 2 ?cls ?g0
      (Inl (Inl ([(1, True)], [(1, ''Heuristic Set'')], ?cls, [1], ?g2, 2)))" by simp
  have sat: "is_clause_satisfied (?cls ! 1) [(1, True)] = False" by simp
  from unsatisfied_indices_invariant
      [of ?cls ?b0 "[(1, True)]" ?cls "[1]" ?b1 "-1" "[2]" 2 ?g0 "[(1, ''Heuristic Set'')]"
          ?g2 2]
    unsatisfied_indices_invariant
      [of ?cls ?b0 "[(1, True)]" ?cls "[1]" ?b2 "-1" "[2]" 2 ?g0 "[(1, ''Heuristic Set'')]"
          ?g2 2]
    c2 c3 g3 sat
  show ?thesis by simp
qed


section \<open>Termination and recursion depth\<close>

text \<open>
  The goal-oriented search with a budget of stack frames:
  \<open>recursive_solve_depth d\<close> may nest at most \<open>d\<close> calls of
  \<open>_recursive_solve_with_heuristic\<close> and is \<open>None\<close> when the search would need a
  deeper call.
\<close>

type_synonym goal_depth_result =
  "(py_error + ((assignment \<times> assignment_types) option \<times> goal_stats)) option"

function recursive_solve_depth ::
    "nat \<Rightarrow> assignment \<Rightarrow> assignment_types \<Rightarrow> clause list \<Rightarrow> nat list \<Rightarrow> goal_stats \<Rightarrow> int
      \<Rightarrow> goal_depth_result"
  and heuristic_loop_depth ::
    "nat \<Rightarrow> int list \<Rightarrow> assignment \<Rightarrow> assignment_types \<Rightarrow> clause list \<Rightarrow> nat list
      \<Rightarrow> goal_stats \<Rightarrow> int \<Rightarrow> int \<Rightarrow> goal_depth_result"
  and apply_heuristic_depth ::
    "nat \<Rightarrow> int \<Rightarrow> assignment \<Rightarrow> assignment_types \<Rightarrow> clause list \<Rightarrow> nat list \<Rightarrow> goal_stats
      \<Rightarrow> int \<Rightarrow> int \<Rightarrow> goal_depth_result"
  and try_branch_depth ::
    "nat \<Rightarrow> nat \<Rightarrow> clause list \<Rightarrow> assignment \<Rightarrow> assignment_types \<Rightarrow> nat list \<Rightarrow> goal_stats
      \<Rightarrow> int \<Rightarrow> goal_depth_result"
  and branch_loop_depth ::
    "nat \<Rightarrow> literal list \<Rightarrow> clause list \<Rightarrow> assignment \<Rightarrow> assignment_types \<Rightarrow> nat list
      \<Rightarrow> goal_stats \<Rightarrow> int \<Rightarrow> goal_depth_result"
where
  "recursive_solve_depth 0 current_assignments assignment_types original_clauses
       unsatisfied_clause_indices stats num_variables = None"
| "recursive_solve_depth (Suc d) current_assignments assignment_types original_clauses
       unsatisfied_clause_indices stats num_variables =
     (let stats1 = stats\<lparr>g_recursive_calls := g_recursive_calls stats + 1\<rparr> in
      if unsatisfied_clause_indices = [] then
        Some (Inr (Some (current_assignments, assignment_types), stats1))
      else
        (let heuristic_factor = 1 in
         heuristic_loop_depth d [1..num_variables] current_assignments assignment_types
           original_clauses unsatisfied_clause_indices stats1 num_variables heuristic_factor))"
| "heuristic_loop_depth d [] current_assignments assignment_types original_clauses
       unsatisfied_clause_indices stats num_variables heuristic_factor =
     (let stats1 = stats\<lparr>g_branch_choices_count := g_branch_choices_count stats + 1\<rparr> in
      case unsatisfied_clause_indices of
        [] \<Rightarrow> Some (Inr (Some (current_assignments, assignment_types), stats1))
      | target_clause_idx # _ \<Rightarrow>
          try_branch_depth d target_clause_idx original_clauses current_assignments
            assignment_types unsatisfied_clause_indices stats1 num_variables)"
| "heuristic_loop_depth d (variable # rest) current_assignments assignment_types
       original_clauses unsatisfied_clause_indices stats num_variables heuristic_factor =
     (case apply_heuristic_depth d variable current_assignments assignment_types
             original_clauses unsatisfied_clause_indices stats num_variables
             heuristic_factor of
        None \<Rightarrow> None
      | Some (Inl e) \<Rightarrow> Some (Inl e)
      | Some (Inr (Some result, stats')) \<Rightarrow> Some (Inr (Some result, stats'))
      | Some (Inr (None, stats')) \<Rightarrow>
          heuristic_loop_depth d rest current_assignments assignment_types original_clauses
            unsatisfied_clause_indices stats' num_variables heuristic_factor)"
| "apply_heuristic_depth d variable current_assignments assignment_types
       original_clauses unsatisfied_clause_indices stats num_variables heuristic_factor =
     (if map_of current_assignments variable \<noteq> None then Some (Inr (None, stats))
      else
        case evaluate_variable_assignment variable True current_assignments
               original_clauses unsatisfied_clause_indices of
          Inl e \<Rightarrow> Some (Inl e)
        | Inr (true_contradiction, true_satisfied_count, remaining_unsatisfied_true) \<Rightarrow>
        (case evaluate_variable_assignment variable False current_assignments
               original_clauses unsatisfied_clause_indices of
          Inl e \<Rightarrow> Some (Inl e)
        | Inr (false_contradiction, false_satisfied_count, remaining_unsatisfied_false) \<Rightarrow>
        (case make_heuristic_decision variable true_contradiction false_contradiction
                true_satisfied_count false_satisfied_count heuristic_factor of
           Some (variable_to_force, value_to_force) \<Rightarrow>
             (let stats1 = stats\<lparr>g_heuristic_choices_count :=
                                     g_heuristic_choices_count stats + 1\<rparr>;
                  new_assignments =
                    AList.update variable_to_force value_to_force current_assignments;
                  new_assignment_types =
                    AList.update variable_to_force ''Heuristic Set'' assignment_types;
                  new_unsatisfied_indices =
                    (if value_to_force then remaining_unsatisfied_true
                     else remaining_unsatisfied_false)
              in recursive_solve_depth d new_assignments new_assignment_types
                   original_clauses new_unsatisfied_indices stats1 num_variables)
         | None \<Rightarrow> Some (Inr (None, stats)))))"
| "try_branch_depth d target_clause_idx original_clauses current_assignments
       assignment_types unsatisfied_clause_indices stats num_variables =
     (if target_clause_idx < length original_clauses then
        branch_loop_depth d (original_clauses ! target_clause_idx) original_clauses
          current_assignments assignment_types unsatisfied_clause_indices stats num_variables
      else Some (Inl IndexError))"
| "branch_loop_depth d [] original_clauses current_assignments assignment_types
       unsatisfied_clause_indices stats num_variables =
     Some (Inr (None, stats\<lparr>g_backtracks_on_branch := g_backtracks_on_branch stats + 1\<rparr>))"
| "branch_loop_depth d (literal # rest) original_clauses current_assignments
       assignment_types unsatisfied_clause_indices stats num_variables =
     (let variable = \<bar>literal\<bar> in
      if map_of current_assignments variable \<noteq> None then
        branch_loop_depth d rest original_clauses current_assignments assignment_types
          unsatisfied_clause_indices stats num_variables
      else
        (let new_assignments = AList.update variable (literal > 0) current_assignments;
             new_assignment_types = AList.update variable ''Branch Set'' assignment_types
         in case get_unsatisfied_clause_indices original_clauses new_assignments
                   unsatisfied_clause_indices of
              Inl e \<Rightarrow> Some (Inl e)
            | Inr new_unsatisfied_indices \<Rightarrow>
                if check_for_contradiction original_clauses new_assignments then
                  branch_loop_depth d rest original_clauses current_assignments
                    assignment_types unsatisfied_clause_indices
                    (stats\<lparr>g_backtracks_on_branch := g_backtracks_on_branch stats + 1\<rparr>)
                    num_variables
                else
                  (case recursive_solve_depth d new_assignments new_assignment_types
                          original_clauses new_unsatisfied_indices stats num_variables of
                     None \<Rightarrow> None
                   | Some (Inl e) \<Rightarrow> Some (Inl e)
                   | Some (Inr (Some result, stats')) \<Rightarrow> Some (Inr (Some result, stats'))
                   | Some (Inr (None, stats')) \<Rightarrow>
                       branch_loop_depth d rest original_clauses current_assignments
                         assignment_types unsatisfied_clause_indices stats' num_variables)))"
  by pat_completeness auto

termination
  by (relation "measures
    [\<lambda>x. case x of
        Inl (Inl (d, _)) \<Rightarrow> d | Inl (Inr (d, _)) \<Rightarrow> d | Inr (Inl (d, _)) \<Rightarrow> d
      | Inr (Inr (Inl (d, _))) \<Rightarrow> d | Inr (Inr (Inr (d, _))) \<Rightarrow> d,
     \<lambda>x. case x of
        Inl (Inl _) \<Rightarrow> 0 | Inl (Inr _) \<Rightarrow> 4 | Inr (Inl _) \<Rightarrow> 3
      | Inr (Inr (Inl _)) \<Rightarrow> 2 | Inr (Inr (Inr _)) \<Rightarrow> 1,
     \<lambda>x. case x of
        Inl (Inr (d, vs, _)) \<Rightarrow> length vs
      | Inr (Inr (Inr (d, ls, _))) \<Rightarrow> length ls
      | _ \<Rightarrow> 0]") auto


lemma recursive_solve_depth_Suc:
  "recursive_solve_depth (Suc d) a t cls u st n =
     (if u = [] then Some (Inr (Some (a, t), st\<lparr>g_recursive_calls := g_recursive_calls st + 1\<rparr>))
      else heuristic_loop_depth d [1..n] a t cls u
             (st\<lparr>g_recursive_calls := g_recursive_calls st + 1\<rparr>) n 1)"
  by (simp add: Let_def)

lemma heuristic_loop_depth_Nil:
  "heuristic_loop_depth d [] a t cls u st n h =
     (case u of
        [] \<Rightarrow> Some (Inr (Some (a, t),
                st\<lparr>g_branch_choices_count := g_branch_choices_count st + 1\<rparr>))
      | i # _ \<Rightarrow> try_branch_depth d i cls a t u
                  (st\<lparr>g_branch_choices_count := g_branch_choices_count st + 1\<rparr>) n)"
  by (simp add: Let_def split: list.splits)

lemma apply_heuristic_depth_eq:
  "apply_heuristic_depth d v a t cls u st n h =
     (if map_of a v \<noteq> None then Some (Inr (None, st))
      else
        case evaluate_variable_assignment v True a cls u of
          Inl e \<Rightarrow> Some (Inl e)
        | Inr (tc, tn, rt) \<Rightarrow>
        (case evaluate_variable_assignment v False a cls u of
          Inl e \<Rightarrow> Some (Inl e)
        | Inr (fc, fn, rf) \<Rightarrow>
        (case make_heuristic_decision v tc fc tn fn h of
           Some (vf, b) \<Rightarrow>
             recursive_solve_depth d (AList.update v b a)
               (AList.update v ''Heuristic Set'' t) cls (if b then rt else rf)
               (st\<lparr>g_heuristic_choices_count := g_heuristic_choices_count st + 1\<rparr>) n
         | None \<Rightarrow> Some (Inr (None, st)))))"
  by (auto simp: Let_def split: sum.splits option.splits prod.splits
      dest: make_heuristic_decision_variable)

lemma branch_loop_depth_Cons:
  "branch_loop_depth d (l # rest) cls a t u st n =
     (if map_of a \<bar>l\<bar> \<noteq> None then branch_loop_depth d rest cls a t u st n
      else
        case get_unsatisfied_clause_indices cls (AList.update \<bar>l\<bar> (0 < l) a) u of
          Inl e \<Rightarrow> Some (Inl e)
        | Inr u' \<Rightarrow>
            if check_for_contradiction cls (AList.update \<bar>l\<bar> (0 < l) a) then
              branch_loop_depth d rest cls a t u
                (st\<lparr>g_backtracks_on_branch := g_backtracks_on_branch st + 1\<rparr>) n
            else
              (case recursive_solve_depth d (AList.update \<bar>l\<bar> (0 < l) a)
                      (AList.update \<bar>l\<bar> ''Branch Set'' t) cls u' st n of
                 None \<Rightarrow> None
               | Some (Inl e) \<Rightarrow> Some (Inl e)
               | Some (Inr (Some result, st')) \<Rightarrow> Some (Inr (Some result, st'))
               | Some (Inr (None, st')) \<Rightarrow> branch_loop_depth d rest cls a t u st' n))"
  by (simp add: Let_def)

lemmas [simp del] = recursive_solve_depth.simps(2) heuristic_loop_depth.simps(1)
  apply_heuristic_depth.simps branch_loop_depth.simps(2)

text \<open>
  A frame budget above the number of variables still unassigned is never exhausted.
\<close>

lemma goal_depth_enough:
  "remaining (goal_domain n cls) a < d \<Longrightarrow>
     recursive_solve_depth d a t cls u st n = Some (recursive_solve_with_heuristic a t cls u st n)"
  "remaining (goal_domain n cls \<union> set vs) a \<le> d \<Longrightarrow>
     heuristic_loop_depth d vs a t cls u st n h = Some (heuristic_loop vs a t cls u st n h)"
  "remaining (goal_domain n cls \<union> {v}) a \<le> d \<Longrightarrow>
     apply_heuristic_depth d v a t cls u st n h
       = Some (apply_heuristic_for_variable v a t cls u st n h)"
  "remaining (goal_domain n cls) a \<le> d \<Longrightarrow>
     try_branch_depth d i cls a t u st n = Some (try_branch_on_target_clause i cls a t u st n)"
  "remaining (goal_domain n cls \<union> abs ` set ls) a \<le> d \<Longrightarrow>
     branch_loop_depth d ls cls a t u st n = Some (branch_loop ls cls a t u st n)"
proof (induction a t cls u st n and vs a t cls u st n h and v a t cls u st n h
         and i cls a t u st n and ls cls a t u st n
         arbitrary: d and d and d and d and d rule: goal_induct)
  case (solve a t cls u st n)
  from solve.prems obtain d' where d: "d = Suc d'" by (cases d) auto
  show ?case
  proof (cases "u = []")
    case True
    then show ?thesis
      by (simp add: d recursive_solve_depth_Suc recursive_solve_with_heuristic_eq)
  next
    case False
    have "goal_domain n cls \<union> set [1..n] = goal_domain n cls" by (auto simp: goal_domain_def)
    with solve.prems d have "remaining (goal_domain n cls \<union> set [1..n]) a \<le> d'" by simp
    from solve.IH [OF False this] False show ?thesis
      by (simp add: d recursive_solve_depth_Suc recursive_solve_with_heuristic_eq)
  qed
next
  case (loop_nil a t cls u st n h)
  show ?case
  proof (cases u)
    case Nil
    then show ?thesis by (simp add: heuristic_loop_depth_Nil heuristic_loop_Nil)
  next
    case (Cons i u')
    from loop_nil.prems have "remaining (goal_domain n cls) a \<le> d" by simp
    from loop_nil.IH [OF Cons this] Cons show ?thesis
      by (simp add: heuristic_loop_depth_Nil heuristic_loop_Nil)
  qed
next
  case (loop_cons v rest a t cls u st n h)
  have "remaining (goal_domain n cls \<union> {v}) a \<le> remaining (goal_domain n cls \<union> set (v # rest)) a"
    by (rule remaining_mono) auto
  with loop_cons.prems have 1: "remaining (goal_domain n cls \<union> {v}) a \<le> d" by simp
  have "remaining (goal_domain n cls \<union> set rest) a
      \<le> remaining (goal_domain n cls \<union> set (v # rest)) a"
    by (rule remaining_mono) auto
  with loop_cons.prems have 2: "remaining (goal_domain n cls \<union> set rest) a \<le> d" by simp
  note ap = loop_cons.IH(1) [OF 1]
  show ?case
  proof (cases "apply_heuristic_for_variable v a t cls u st n h")
    case (Inl e)
    then show ?thesis using ap by simp
  next
    case (Inr r)
    obtain res st' where rs: "r = (res, st')" by (cases r)
    show ?thesis
    proof (cases res)
      case None
      from loop_cons.IH(2) [OF _ 2, of st'] Inr rs None ap show ?thesis by simp
    next
      case (Some sol)
      then show ?thesis using Inr rs ap by simp
    qed
  qed
next
  case (heur v a t cls u st n h)
  show ?case
  proof (cases "map_of a v = None")
    case False
    then show ?thesis
      by (simp add: apply_heuristic_depth_eq apply_heuristic_for_variable_eq)
  next
    case True
    show ?thesis
    proof (cases "evaluate_variable_assignment v True a cls u")
      case (Inl e)
      then show ?thesis using True
        by (simp add: apply_heuristic_depth_eq apply_heuristic_for_variable_eq)
    next
      case et: (Inr rt3)
      obtain tc tn rt where rt3: "rt3 = (tc, tn, rt)" by (cases rt3)
      show ?thesis
      proof (cases "evaluate_variable_assignment v False a cls u")
        case (Inl e)
        then show ?thesis using True et rt3
          by (simp add: apply_heuristic_depth_eq apply_heuristic_for_variable_eq)
      next
        case ef: (Inr rf3)
        obtain fc fn rf where rf3: "rf3 = (fc, fn, rf)" by (cases rf3)
        show ?thesis
        proof (cases "make_heuristic_decision v tc fc tn fn h")
          case None
          then show ?thesis using True et rt3 ef rf3
            by (simp add: apply_heuristic_depth_eq apply_heuristic_for_variable_eq)
        next
          case (Some vb)
          obtain vf b where vb: "vb = (vf, b)" by (cases vb)
          with Some have vf: "vf = v" using make_heuristic_decision_variable by metis
          have "remaining (goal_domain n cls) (AList.update v b a)
              < remaining (goal_domain n cls \<union> {v}) a"
            by (rule remaining_update) (use True in auto)
          with heur.prems have "remaining (goal_domain n cls) (AList.update v b a) < d"
            by simp
          from heur.IH [OF True _ _ _ this, of tc tn rt fc fn rf] et rt3 ef rf3 Some vb vf
          show ?thesis using True
            by (simp add: apply_heuristic_depth_eq apply_heuristic_for_variable_eq)
        qed
      qed
    qed
  qed
next
  case (target i cls a t u st n)
  show ?case
  proof (cases "i < length cls")
    case True
    have "abs ` set (cls ! i) \<subseteq> goal_domain n cls"
      using nth_variables_of [OF True] by (auto simp: goal_domain_def)
    then have "goal_domain n cls \<union> abs ` set (cls ! i) = goal_domain n cls" by auto
    with target.prems have "remaining (goal_domain n cls \<union> abs ` set (cls ! i)) a \<le> d"
      by simp
    from target.IH [OF True this] True show ?thesis by simp
  next
    case False
    then show ?thesis by simp
  qed
next
  case (nil cls a t u st n)
  then show ?case by simp
next
  case (skip l rest cls a t u st n)
  have "remaining (goal_domain n cls \<union> abs ` set rest) a
      \<le> remaining (goal_domain n cls \<union> abs ` set (l # rest)) a"
    by (rule remaining_mono) auto
  with skip.prems have "remaining (goal_domain n cls \<union> abs ` set rest) a \<le> d" by simp
  from skip.IH [OF this] skip.hyps show ?case
    by (simp add: branch_loop_depth_Cons branch_loop_Cons)
next
  case (assign l rest cls a t u st n)
  let ?a' = "AList.update \<bar>l\<bar> (0 < l) a"
  let ?t' = "AList.update \<bar>l\<bar> ''Branch Set'' t"
  have "remaining (goal_domain n cls \<union> abs ` set rest) a
      \<le> remaining (goal_domain n cls \<union> abs ` set (l # rest)) a"
    by (rule remaining_mono) auto
  with assign.prems have rest: "remaining (goal_domain n cls \<union> abs ` set rest) a \<le> d" by simp
  have "remaining (goal_domain n cls) ?a'
      < remaining (goal_domain n cls \<union> abs ` set (l # rest)) a"
    by (rule remaining_update) (use assign.hyps in auto)
  with assign.prems have less: "remaining (goal_domain n cls) ?a' < d" by simp
  show ?case
  proof (cases "get_unsatisfied_clause_indices cls ?a' u")
    case (Inl e)
    then show ?thesis using assign.hyps
      by (simp add: branch_loop_depth_Cons branch_loop_Cons)
  next
    case (Inr u')
    show ?thesis
    proof (cases "check_for_contradiction cls ?a'")
      case True
      from assign.IH(1) [OF Inr True rest] Inr True assign.hyps show ?thesis
        by (simp add: branch_loop_depth_Cons branch_loop_Cons)
    next
      case False
      note rd = assign.IH(2) [OF Inr False less]
      show ?thesis
      proof (cases "recursive_solve_with_heuristic ?a' ?t' cls u' st n")
        case (Inl e)
        then show ?thesis using assign.hyps Inr False rd
          by (simp add: branch_loop_depth_Cons branch_loop_Cons)
      next
        case r: (Inr r)
        obtain res st' where rs: "r = (res, st')" by (cases r)
        show ?thesis
        proof (cases res)
          case None
          from assign.IH(3) [OF Inr False _ rest, of st'] r rs None
          show ?thesis using assign.hyps Inr False rd
            by (simp add: branch_loop_depth_Cons branch_loop_Cons)
        next
          case (Some sol)
          then show ?thesis using assign.hyps Inr False rd r rs
            by (simp add: branch_loop_depth_Cons branch_loop_Cons)
        qed
      qed
    qed
  qed
qed

text \<open>\<open>_dpll\<close> with a budget of stack frames, in the same way.\<close>

fun dpll_depth ::
  "nat \<Rightarrow> (int list \<Rightarrow> int) \<Rightarrow> clause list \<Rightarrow> assignment \<Rightarrow> dpll_stats
    \<Rightarrow> (bool \<times> assignment \<times> dpll_stats) option" where
  "dpll_depth 0 pick clauses assignment stats = None"
| "dpll_depth (Suc d) pick clauses assignment stats =
     (let (propagated, assignment1, stats1) = unit_propagation clauses assignment stats in
      if \<not> propagated then Some (False, assignment1, stats1)
      else if has_conflict clauses assignment1 then
        Some (False, assignment1, stats1\<lparr>d_conflicts := d_conflicts stats1 + 1\<rparr>)
      else if all_satisfied clauses assignment1 then Some (True, assignment1, stats1)
      else
        (case find_pure_literal pick clauses assignment1 of
           Some pure_literal \<Rightarrow>
             dpll_depth d pick clauses
               (AList.update \<bar>pure_literal\<bar> (pure_literal > 0) assignment1) stats1
         | None \<Rightarrow>
             (case choose_variable clauses assignment1 of
                None \<Rightarrow> Some (True, assignment1, stats1)
              | Some var \<Rightarrow>
                  (let stats2 = stats1\<lparr>d_decisions := d_decisions stats1 + 1\<rparr>;
                       assignment2 = AList.update var True assignment1
                   in case dpll_depth d pick clauses assignment2 stats2 of
                        None \<Rightarrow> None
                      | Some (result_true, copy_true, stats3) \<Rightarrow>
                          if result_true then Some (True, assignment2, stats3)
                          else
                            (let stats4 = stats3\<lparr>d_backtracks := d_backtracks stats3 + 1\<rparr>;
                                 assignment3 = AList.update var False assignment2
                             in case dpll_depth d pick clauses assignment3 stats4 of
                                  None \<Rightarrow> None
                                | Some (result_false, copy_false, stats5) \<Rightarrow>
                                    if result_false then Some (True, assignment3, stats5)
                                    else Some (False, AList.delete var assignment3, stats5))))))"

lemmas [simp del] = dpll_depth.simps(2)

lemma dpll_depth_enough:
  "remaining (variables_of cls) a < d \<Longrightarrow> dpll_depth d pick cls a st = Some (dpll pick cls a st)"
proof (induction d arbitrary: a st)
  case 0
  then show ?case by simp
next
  case (Suc d)
  obtain ok a1 st1 where up: "unit_propagation cls a st = (ok, a1, st1)"
    by (cases "unit_propagation cls a st")
  from unit_propagation_remaining [OF up] Suc.prems
  have le: "remaining (variables_of cls) a1 \<le> d" by simp
  note unfold = dpll_depth.simps(2) [of d pick cls a st] dpll.simps [of pick cls a st]
  show ?case
  proof (cases "\<not> ok \<or> has_conflict cls a1 \<or> all_satisfied cls a1")
    case True
    then show ?thesis unfolding unfold by (auto simp: up)
  next
    case False
    show ?thesis
    proof (cases "find_pure_literal pick cls a1")
      case (Some p)
      from find_pure_literal_Some [OF Some]
      have "remaining (variables_of cls) (AList.update \<bar>p\<bar> (0 < p) a1)
          < remaining (variables_of cls) a1"
        by (intro remaining_update) auto
      with le have "remaining (variables_of cls) (AList.update \<bar>p\<bar> (0 < p) a1) < d" by simp
      from Suc.IH [OF this] False Some show ?thesis unfolding unfold by (simp add: up)
    next
      case None
      show ?thesis
      proof (cases "choose_variable cls a1")
        case cn: None
        with False None show ?thesis unfolding unfold by (simp add: up)
      next
        case (Some var)
        let ?a2 = "AList.update var True a1"
        let ?st2 = "st1\<lparr>d_decisions := Suc (d_decisions st1)\<rparr>"
        let ?a3 = "AList.update var False a1"
        from choose_variable_Some [OF Some]
        have "remaining (variables_of cls) ?a2 < remaining (variables_of cls) a1"
          by (intro remaining_update) auto
        with le have l2: "remaining (variables_of cls) ?a2 < d" by simp
        from choose_variable_Some [OF Some]
        have "remaining (variables_of cls) ?a3 < remaining (variables_of cls) a1"
          by (intro remaining_update) auto
        with le have l3: "remaining (variables_of cls) ?a3 < d" by simp
        obtain rt ct st3 where r1: "dpll pick cls ?a2 ?st2 = (rt, ct, st3)"
          by (cases "dpll pick cls ?a2 ?st2")
        let ?st4 = "st3\<lparr>d_backtracks := Suc (d_backtracks st3)\<rparr>"
        obtain rf cf st5 where r2: "dpll pick cls ?a3 ?st4 = (rf, cf, st5)"
          by (cases "dpll pick cls ?a3 ?st4")
        from Suc.IH [OF l2, of ?st2] r1
        have d1: "dpll_depth d pick cls ?a2 ?st2 = Some (rt, ct, st3)" by simp
        from Suc.IH [OF l3, of ?st4] r2
        have d2: "dpll_depth d pick cls ?a3 ?st4 = Some (rf, cf, st5)" by simp
        from False None Some show ?thesis
          unfolding unfold by (simp add: up Let_def d1 d2 r1 r2)
      qed
    qed
  qed
qed

text \<open>\<open>get_variable_count\<close> is the number of distinct variables of the formula.\<close>

lemma variables_loop_set: "set (variables_loop vs c) = set vs \<union> abs ` set c"
  by (induction c arbitrary: vs) auto

lemma variables_loop_distinct: "distinct vs \<Longrightarrow> distinct (variables_loop vs c)"
  by (induction c arbitrary: vs) auto

lemma variables_fold:
  "distinct vs \<Longrightarrow>
     distinct (foldl variables_loop vs cls)
     \<and> set (foldl variables_loop vs cls) = set vs \<union> variables_of cls"
proof (induction cls arbitrary: vs)
  case Nil
  then show ?case by (simp add: variables_of_def)
next
  case (Cons c cls)
  have "variables_of (c # cls) = abs ` set c \<union> variables_of cls"
    by (auto simp: variables_of_def)
  with Cons.IH [OF variables_loop_distinct [OF Cons.prems, of c]] show ?case
    by (auto simp: variables_loop_set)
qed

lemma get_variable_count_card: "get_variable_count cls = int (card (variables_of cls))"
  using variables_fold [of "[]" cls] distinct_card [of "foldl variables_loop [] cls"]
  by (simp add: get_variable_count_def)

text \<open>
  C8. Every solver terminates on every formula, and its recursion depth is bounded by
  the number of variables: each recursive call is made with at least one more variable
  assigned (the measure \<open>remaining\<close> of the termination proofs), so a budget of stack
  frames larger than the number of variables is never exhausted and the budgeted search
  returns exactly what the search returns. For the backward and the DPLL solver the
  number of variables is the number of distinct variables of the formula
  (\<open>get_variable_count\<close>); the goal-oriented solver can also force variables of
  \<open>1..num_variables\<close>, so its bound counts those as well, and it is \<open>num_variables\<close>
  when every literal stays within the declared range.
\<close>

theorem solvers_terminate_within_depth:
  "(nat (get_variable_count cls) < d \<longrightarrow>
      find_solution_depth d [] cls [0..<length cls] bst
        = Some (find_solution_recursive [] cls [0..<length cls] bst))
   \<and> (card (goal_domain n cls) < d \<longrightarrow>
      recursive_solve_depth d [] [] cls [0..<length cls] gst n
        = Some (recursive_solve_with_heuristic [] [] cls [0..<length cls] gst n))
   \<and> (variables_of cls \<subseteq> {1..n} \<and> nat n < d \<longrightarrow>
      recursive_solve_depth d [] [] cls [0..<length cls] gst n
        = Some (recursive_solve_with_heuristic [] [] cls [0..<length cls] gst n))
   \<and> (nat (get_variable_count cls) < d \<longrightarrow>
      dpll_depth d pick cls [] dst = Some (dpll pick cls [] dst))"
proof (intro conjI impI)
  assume "nat (get_variable_count cls) < d"
  then have "remaining (variables_of cls) [] < d"
    by (simp add: get_variable_count_card remaining_def)
  then show "find_solution_depth d [] cls [0..<length cls] bst
        = Some (find_solution_recursive [] cls [0..<length cls] bst)"
    by (rule backward_depth_enough(1))
next
  assume "card (goal_domain n cls) < d"
  then have "remaining (goal_domain n cls) [] < d" by (simp add: remaining_def)
  then show "recursive_solve_depth d [] [] cls [0..<length cls] gst n
        = Some (recursive_solve_with_heuristic [] [] cls [0..<length cls] gst n)"
    by (rule goal_depth_enough(1))
next
  assume a: "variables_of cls \<subseteq> {1..n} \<and> nat n < d"
  then have "goal_domain n cls = {1..n}" by (auto simp: goal_domain_def)
  with a have "remaining (goal_domain n cls) [] < d" by (simp add: remaining_def)
  then show "recursive_solve_depth d [] [] cls [0..<length cls] gst n
        = Some (recursive_solve_with_heuristic [] [] cls [0..<length cls] gst n)"
    by (rule goal_depth_enough(1))
next
  assume "nat (get_variable_count cls) < d"
  then have "remaining (variables_of cls) [] < d"
    by (simp add: get_variable_count_card remaining_def)
  then show "dpll_depth d pick cls [] dst = Some (dpll pick cls [] dst)"
    by (rule dpll_depth_enough)
qed


theorem solvers_terminate_within_depth_witness:
  "nat (get_variable_count [[1], [-1, 2]]) < 3
   \<and> find_solution_depth 3 [] [[1], [-1, 2]] [0..<length [[1], [-1, 2 :: int]]]
         \<lparr>b_test_case_name = ''t'', b_num_variables = 2, b_num_clauses = 2,
           b_recursive_calls = 0, b_backtracks = 0, b_branch_choices_count = 0,
           b_defaulted_variables = [], b_status = None, b_solution = None\<rparr>
       = Some (find_solution_recursive [] [[1], [-1, 2]] [0..<length [[1], [-1, 2 :: int]]]
         \<lparr>b_test_case_name = ''t'', b_num_variables = 2, b_num_clauses = 2,
           b_recursive_calls = 0, b_backtracks = 0, b_branch_choices_count = 0,
           b_defaulted_variables = [], b_status = None, b_solution = None\<rparr>)
   \<and> card (goal_domain 2 [[1], [-1, 2]]) < 3
   \<and> variables_of [[1], [-1, 2]] \<subseteq> {1..2}
   \<and> nat 2 < (3 :: nat)
   \<and> recursive_solve_depth 3 [] [] [[1], [-1, 2]] [0..<length [[1], [-1, 2 :: int]]]
         \<lparr>g_recursive_calls = 0, g_backtracks_on_branch = 0, g_heuristic_choices_count = 0,
           g_branch_choices_count = 0, g_defaulted_variables = []\<rparr> 2
       = Some (recursive_solve_with_heuristic [] [] [[1], [-1, 2]]
         [0..<length [[1], [-1, 2 :: int]]]
         \<lparr>g_recursive_calls = 0, g_backtracks_on_branch = 0, g_heuristic_choices_count = 0,
           g_branch_choices_count = 0, g_defaulted_variables = []\<rparr> 2)
   \<and> dpll_depth 3 hd [[1], [-1, 2]] []
         \<lparr>d_decisions = 0, d_unit_propagations = 0, d_conflicts = 0, d_backtracks = 0\<rparr>
       = Some (dpll hd [[1], [-1, 2]] []
         \<lparr>d_decisions = 0, d_unit_propagations = 0, d_conflicts = 0, d_backtracks = 0\<rparr>)"
proof -
  have h1: "nat (get_variable_count [[1], [-1, 2]]) < 3" by code_simp
  have h3: "variables_of [[1], [-1, 2]] \<subseteq> {1..2}" by (auto simp: variables_of_def)
  have "goal_domain 2 [[1], [-1, 2]] = {1, 2}" by (auto simp: goal_domain_def variables_of_def)
  then have h2: "card (goal_domain 2 [[1], [-1, 2]]) < 3" by simp
  from solvers_terminate_within_depth
      [of "[[1], [-1, 2]]" 3
          "\<lparr>b_test_case_name = ''t'', b_num_variables = 2, b_num_clauses = 2,
           b_recursive_calls = 0, b_backtracks = 0, b_branch_choices_count = 0,
           b_defaulted_variables = [], b_status = None, b_solution = None\<rparr>"
          2
          "\<lparr>g_recursive_calls = 0, g_backtracks_on_branch = 0, g_heuristic_choices_count = 0,
           g_branch_choices_count = 0, g_defaulted_variables = []\<rparr>"
          hd
          "\<lparr>d_decisions = 0, d_unit_propagations = 0, d_conflicts = 0, d_backtracks = 0\<rparr>"]
    h1 h2 h3
  show ?thesis by simp
qed

section \<open>The forced-choice rule of the goal-oriented solver\<close>














section \<open>What the top-level solve operations return\<close>










lemma dpll_depth_cases:
  "dpll_depth d pick cls a st = None \<or> dpll_depth d pick cls a st = Some (dpll pick cls a st)"
proof (induction d arbitrary: a st)
  case 0
  then show ?case by simp
next
  case (Suc d)
  obtain ok a1 st1 where up: "unit_propagation cls a st = (ok, a1, st1)"
    by (cases "unit_propagation cls a st")
  note unfold = dpll_depth.simps(2) [of d pick cls a st] dpll.simps [of pick cls a st]
  show ?case
  proof (cases "\<not> ok \<or> has_conflict cls a1 \<or> all_satisfied cls a1")
    case True
    then show ?thesis unfolding unfold by (auto simp: up)
  next
    case False
    show ?thesis
    proof (cases "find_pure_literal pick cls a1")
      case (Some p)
      from Suc.IH [of "AList.update \<bar>p\<bar> (0 < p) a1" st1] False Some show ?thesis
        unfolding unfold by (simp add: up)
    next
      case None
      show ?thesis
      proof (cases "choose_variable cls a1")
        case cn: None
        with False None show ?thesis unfolding unfold by (simp add: up)
      next
        case (Some var)
        let ?a2 = "AList.update var True a1"
        let ?st2 = "st1\<lparr>d_decisions := Suc (d_decisions st1)\<rparr>"
        let ?a3 = "AList.update var False a1"
        obtain rt ct st3 where r1: "dpll pick cls ?a2 ?st2 = (rt, ct, st3)"
          by (cases "dpll pick cls ?a2 ?st2")
        let ?st4 = "st3\<lparr>d_backtracks := Suc (d_backtracks st3)\<rparr>"
        obtain rf cf st5 where r2: "dpll pick cls ?a3 ?st4 = (rf, cf, st5)"
          by (cases "dpll pick cls ?a3 ?st4")
        show ?thesis
        proof (cases "dpll_depth d pick cls ?a2 ?st2")
          case n1: None
          from False None Some show ?thesis
            unfolding unfold by (simp add: up Let_def n1)
        next
          case s1: (Some x)
          with Suc.IH [of ?a2 ?st2] r1
          have d1: "dpll_depth d pick cls ?a2 ?st2 = Some (rt, ct, st3)" by simp
          show ?thesis
          proof (cases rt)
            case True
            from False None Some True show ?thesis
              unfolding unfold by (simp add: up Let_def d1 r1)
          next
            case rtF: False
            show ?thesis
            proof (cases "dpll_depth d pick cls ?a3 ?st4")
              case n2: None
              from False None Some rtF show ?thesis
                unfolding unfold by (simp add: up Let_def d1 n2)
            next
              case s2: (Some y)
              with Suc.IH [of ?a3 ?st4] r2
              have d2: "dpll_depth d pick cls ?a3 ?st4 = Some (rf, cf, st5)" by simp
              from False None Some rtF show ?thesis
                unfolding unfold by (simp add: up Let_def d1 d2 r1 r2)
            qed
          qed
        qed
      qed
    qed
  qed
qed











end
